theory Spec2Isabelle
  imports Complex_Main
begin

section \<open>The order ledger (src/database/db_service.py)\<close>

text \<open>
  One row of the table \<^verbatim>\<open>processed_orders\<close>. The columns are those of the
  \<^verbatim>\<open>CREATE TABLE\<close> statement in \<^verbatim>\<open>_init_database\<close>, the autoincrement
  surrogate key apart. Timestamps are seconds on a clock the caller supplies
  (\<^verbatim>\<open>CURRENT_TIMESTAMP\<close>).
\<close>

record processed_order =
  order_id :: int
  order_number :: string
  status :: string
  total_sum :: "rat option"
  customer_name :: "string option"
  warehouse_code :: "string option"
  delivery_type :: "string option"
  was_in_no_product :: bool
  returned_from_no_product :: bool
  bouquet_ready_notified :: bool
  created_at :: nat
  updated_at :: nat
  notified_at :: nat

text \<open>
  The database file: the rows of \<^verbatim>\<open>processed_orders\<close> in storage order, the rows of
  \<^verbatim>\<open>error_log\<close> (error type and order id; the free text is left out), and whether
  the file is locked. A locked database makes every statement of \<^verbatim>\<open>get_connection\<close>
  raise \<^verbatim>\<open>sqlite3.OperationalError\<close> after the busy timeout; the transaction is
  rolled back, so nothing is written.
\<close>

record db_state =
  processed_orders :: "processed_order list"
  error_log :: "(string \<times> int option) list"
  db_locked :: bool

datatype db_error = OperationalError

text \<open>The column \<^verbatim>\<open>order_id\<close> is declared \<^verbatim>\<open>UNIQUE\<close>.\<close>

definition unique_order_ids :: "db_state \<Rightarrow> bool" where
  "unique_order_ids db = distinct (map order_id (processed_orders db))"

text \<open>\<^verbatim>\<open>is_order_processed\<close> has no exception handler: a locked database raises.\<close>

definition is_order_processed :: "int \<Rightarrow> db_state \<Rightarrow> db_error + bool" where
  "is_order_processed oid db =
     (if db_locked db then Inl OperationalError
      else Inr (length (filter (\<lambda>r. order_id r = oid) (processed_orders db)) > 0))"

text \<open>
  \<^verbatim>\<open>save_processed_order\<close>: \<^verbatim>\<open>INSERT OR REPLACE\<close> deletes the row that conflicts on
  \<^verbatim>\<open>order_id\<close> and inserts the new one. The statement names ten columns, the two
  no-product flags with the constant 0; the columns it does not name take their defaults
  (\<^verbatim>\<open>bouquet_ready_notified\<close> 0, \<^verbatim>\<open>created_at\<close> and \<^verbatim>\<open>notified_at\<close> the current time).
\<close>

definition save_processed_order ::
  "nat \<Rightarrow> int \<Rightarrow> string \<Rightarrow> string \<Rightarrow> string option \<Rightarrow> rat option \<Rightarrow> string option
     \<Rightarrow> string option \<Rightarrow> db_state \<Rightarrow> bool \<times> db_state" where
  "save_processed_order now oid number st dtype tsum cname wcode db =
     (if db_locked db then (False, db)
      else (True, db\<lparr>processed_orders :=
          filter (\<lambda>r. order_id r \<noteq> oid) (processed_orders db) @
          [\<lparr>order_id = oid, order_number = number, status = st, total_sum = tsum,
            customer_name = cname, warehouse_code = wcode, delivery_type = dtype,
            was_in_no_product = False, returned_from_no_product = False,
            bouquet_ready_notified = False,
            created_at = now, updated_at = now, notified_at = now\<rparr>]\<rparr>))"

text \<open>
  \<^verbatim>\<open>get_all_processed_orders\<close>: \<^verbatim>\<open>ORDER BY created_at DESC\<close>, newest first; rows
  with the same timestamp come in their storage order (the sort is stable). An error
  gives the empty list.
\<close>

definition get_all_processed_orders :: "db_state \<Rightarrow> processed_order list" where
  "get_all_processed_orders db =
     (if db_locked db then []
      else sort_key (\<lambda>r. - int (created_at r)) (processed_orders db))"

text \<open>
  The two no-product markers run an \<^verbatim>\<open>UPDATE\<close> and return \<^verbatim>\<open>True\<close> without
  looking at the number of rows it matched.
\<close>

definition mark_order_in_no_product :: "nat \<Rightarrow> int \<Rightarrow> db_state \<Rightarrow> bool \<times> db_state" where
  "mark_order_in_no_product now oid db =
     (if db_locked db then (False, db)
      else (True, db\<lparr>processed_orders :=
          map (\<lambda>r. if order_id r = oid
                    then r\<lparr>was_in_no_product := True, updated_at := now\<rparr> else r)
              (processed_orders db)\<rparr>))"

definition mark_order_returned_from_no_product ::
  "nat \<Rightarrow> int \<Rightarrow> db_state \<Rightarrow> bool \<times> db_state" where
  "mark_order_returned_from_no_product now oid db =
     (if db_locked db then (False, db)
      else (True, db\<lparr>processed_orders :=
          map (\<lambda>r. if order_id r = oid
                    then r\<lparr>returned_from_no_product := True, updated_at := now\<rparr> else r)
              (processed_orders db)\<rparr>))"

definition was_order_in_no_product :: "int \<Rightarrow> db_state \<Rightarrow> bool" where
  "was_order_in_no_product oid db =
     (if db_locked db then False
      else (case find (\<lambda>r. order_id r = oid) (processed_orders db) of
              None \<Rightarrow> False
            | Some r \<Rightarrow> was_in_no_product r))"

definition is_order_returned_from_no_product :: "int \<Rightarrow> db_state \<Rightarrow> bool" where
  "is_order_returned_from_no_product oid db =
     (if db_locked db then False
      else (case find (\<lambda>r. order_id r = oid) (processed_orders db) of
              None \<Rightarrow> False
            | Some r \<Rightarrow> returned_from_no_product r))"

text \<open>
  \<^verbatim>\<open>reset_order_for_renotification\<close>: reads the flag of the order's row
  (\<^verbatim>\<open>fetchone\<close>), returns \<^verbatim>\<open>False\<close> when there is no row or the flag is 0, and
  otherwise deletes by \<^verbatim>\<open>order_id\<close> and reports whether a row was deleted.
\<close>

definition reset_order_for_renotification :: "int \<Rightarrow> db_state \<Rightarrow> bool \<times> db_state" where
  "reset_order_for_renotification oid db =
     (if db_locked db then (False, db)
      else (case find (\<lambda>r. order_id r = oid) (processed_orders db) of
              None \<Rightarrow> (False, db)
            | Some r \<Rightarrow>
                if \<not> was_in_no_product r then (False, db)
                else (let rowcount = length (filter (\<lambda>r. order_id r = oid) (processed_orders db))
                      in (rowcount > 0,
                          db\<lparr>processed_orders :=
                               filter (\<lambda>r. order_id r \<noteq> oid) (processed_orders db)\<rparr>))))"

text \<open>\<^verbatim>\<open>mark_bouquet_ready_notified\<close> does look at \<^verbatim>\<open>cursor.rowcount\<close>.\<close>

definition mark_bouquet_ready_notified :: "nat \<Rightarrow> int \<Rightarrow> db_state \<Rightarrow> bool \<times> db_state" where
  "mark_bouquet_ready_notified now oid db =
     (if db_locked db then (False, db)
      else (let rowcount = length (filter (\<lambda>r. order_id r = oid) (processed_orders db))
            in (rowcount > 0,
                db\<lparr>processed_orders :=
                  map (\<lambda>r. if order_id r = oid
                            then r\<lparr>bouquet_ready_notified := True, updated_at := now\<rparr> else r)
                      (processed_orders db)\<rparr>)))"

text \<open>\<^verbatim>\<open>log_error\<close> has no exception handler either.\<close>

definition log_error :: "string \<Rightarrow> int option \<Rightarrow> db_state \<Rightarrow> db_error + db_state" where
  "log_error error_type oid db =
     (if db_locked db then Inl OperationalError
      else Inr (db\<lparr>error_log := error_log db @ [(error_type, oid)]\<rparr>))"

text \<open>Example rows and databases.\<close>

definition plain_row :: "int \<Rightarrow> processed_order" where
  "plain_row oid =
     \<lparr>order_id = oid, order_number = ''A-1'', status = ''target'', total_sum = Some 10,
      customer_name = None, warehouse_code = Some ''20'', delivery_type = Some ''courier'',
      was_in_no_product = False, returned_from_no_product = False,
      bouquet_ready_notified = False, created_at = 1, updated_at = 1, notified_at = 1\<rparr>"

definition flagged_row :: "int \<Rightarrow> processed_order" where
  "flagged_row oid = (plain_row oid)\<lparr>was_in_no_product := True, updated_at := 2\<rparr>"

definition db_of :: "processed_order list \<Rightarrow> db_state" where
  "db_of rs = \<lparr>processed_orders = rs, error_log = [], db_locked = False\<rparr>"

section \<open>The rate limiter (src/services/rate_limiter.py)\<close>

text \<open>
  The Redis server as the limiter uses it: a key holds an integer and, once \<^verbatim>\<open>EXPIRE\<close> was
  called on it, the second at which it expires. A key whose expiry time has come is gone
  for every command. Time is in whole seconds.
\<close>

type_synonym redis_store = "string \<rightharpoonup> (int \<times> int option)"

definition redis_lookup :: "int \<Rightarrow> redis_store \<Rightarrow> string \<Rightarrow> (int \<times> int option) option" where
  "redis_lookup now store key =
     (case store key of
        None \<Rightarrow> None
      | Some (v, None) \<Rightarrow> Some (v, None)
      | Some (v, Some e) \<Rightarrow> if e \<le> now then None else Some (v, Some e))"

text \<open>\<^verbatim>\<open>INCR\<close>: a missing key counts as 0; the expiry of the key stays as it is.\<close>

definition redis_incr :: "int \<Rightarrow> redis_store \<Rightarrow> string \<Rightarrow> int \<times> redis_store" where
  "redis_incr now store key =
     (case redis_lookup now store key of
        None \<Rightarrow> (1, store(key \<mapsto> (1, None)))
      | Some (v, e) \<Rightarrow> (v + 1, store(key \<mapsto> (v + 1, e))))"

text \<open>
  \<^verbatim>\<open>EXPIRE key seconds\<close>: the key expires \<open>seconds\<close> from now (at once when \<open>seconds\<close> is
  not positive); no effect on a missing key.
\<close>

definition redis_expire :: "int \<Rightarrow> redis_store \<Rightarrow> string \<Rightarrow> int \<Rightarrow> redis_store" where
  "redis_expire now store key seconds =
     (case redis_lookup now store key of
        None \<Rightarrow> store
      | Some (v, e) \<Rightarrow> store(key \<mapsto> (v, Some (now + seconds))))"

text \<open>\<^verbatim>\<open>TTL\<close>: -2 for a missing key, -1 for a key without expiry.\<close>

definition redis_ttl :: "int \<Rightarrow> redis_store \<Rightarrow> string \<Rightarrow> int" where
  "redis_ttl now store key =
     (case redis_lookup now store key of
        None \<Rightarrow> - 2
      | Some (v, None) \<Rightarrow> - 1
      | Some (v, Some e) \<Rightarrow> e - now)"

text \<open>
  The limiter object: \<open>connected\<close> is false when the constructor could not reach the
  server and set \<^verbatim>\<open>self.redis = None\<close>.
\<close>

record rate_limiter =
  connected :: bool
  prefix :: string

datatype redis_error = RedisError | UnexpectedError

text \<open>
  What the three commands of one check do when they are sent: \<open>None\<close> when the command
  goes through, the exception it raises otherwise.
\<close>

record redis_faults =
  incr_fault :: "redis_error option"
  expire_fault :: "redis_error option"
  ttl_fault :: "redis_error option"

definition no_faults :: redis_faults where
  "no_faults = \<lparr>incr_fault = None, expire_fault = None, ttl_fault = None\<rparr>"

definition get_key :: "rate_limiter \<Rightarrow> string \<Rightarrow> string \<Rightarrow> string" where
  "get_key rl identifier action = prefix rl @ '':'' @ action @ '':'' @ identifier"

text \<open>
  The body of the \<^verbatim>\<open>try\<close> block of \<^verbatim>\<open>check_rate_limit\<close>: \<open>Inl\<close> is the exception that
  leaves it. The \<^verbatim>\<open>ttl\<close> call only feeds the log line of a limited caller.
\<close>

definition check_rate_limit_try ::
  "rate_limiter \<Rightarrow> redis_faults \<Rightarrow> int \<Rightarrow> string \<Rightarrow> string \<Rightarrow> int \<Rightarrow> int \<Rightarrow> redis_store
     \<Rightarrow> (redis_error + bool \<times> int) \<times> redis_store" where
  "check_rate_limit_try rl faults now identifier action limit window store =
     (let key = get_key rl identifier action in
      case incr_fault faults of
        Some e \<Rightarrow> (Inl e, store)
      | None \<Rightarrow>
         (let (current, s1) = redis_incr now store key in
          case (if current = 1 then expire_fault faults else None) of
            Some e \<Rightarrow> (Inl e, s1)
          | None \<Rightarrow>
             (let s2 = (if current = 1 then redis_expire now s1 key window else s1);
                  remaining = max 0 (limit - current);
                  is_limited = (current > limit)
              in case (if is_limited then ttl_fault faults else None) of
                   Some e \<Rightarrow> (Inl e, s2)
                 | None \<Rightarrow> (Inr (is_limited, remaining), s2))))"

definition check_rate_limit ::
  "rate_limiter \<Rightarrow> redis_faults \<Rightarrow> int \<Rightarrow> string \<Rightarrow> string \<Rightarrow> int \<Rightarrow> int \<Rightarrow> redis_store
     \<Rightarrow> (bool \<times> int) \<times> redis_store" where
  "check_rate_limit rl faults now identifier action limit window store =
     (if \<not> connected rl then ((False, limit), store)
      else (case check_rate_limit_try rl faults now identifier action limit window store of
              (Inl e, s) \<Rightarrow> ((False, limit), s)
            | (Inr r, s) \<Rightarrow> (r, s)))"

text \<open>
  The value of the counter that a check at time \<open>now\<close> reads back from \<^verbatim>\<open>INCR\<close>.
\<close>

definition post_increment :: "int \<Rightarrow> redis_store \<Rightarrow> string \<Rightarrow> int" where
  "post_increment now store key = fst (redis_incr now store key)"

text \<open>
  A series of checks by one caller at the given times, each on the store the previous one
  left: the results in order, and the store after the last check.
\<close>

fun check_series ::
  "rate_limiter \<Rightarrow> int list \<Rightarrow> string \<Rightarrow> string \<Rightarrow> int \<Rightarrow> int \<Rightarrow> redis_store
     \<Rightarrow> (bool \<times> int) list \<times> redis_store" where
  "check_series rl [] identifier action limit window store = ([], store)"
| "check_series rl (t # ts) identifier action limit window store =
     (let (r, s) = check_rate_limit rl no_faults t identifier action limit window store;
          (rs, s') = check_series rl ts identifier action limit window s
      in (r # rs, s'))"

definition limiter_up :: rate_limiter where
  "limiter_up = \<lparr>connected = True, prefix = ''rate_limit''\<rparr>"

definition limiter_down :: rate_limiter where
  "limiter_down = \<lparr>connected = False, prefix = ''rate_limit''\<rparr>"

section \<open>Button payloads (src/handlers/order_callback_handler.py)\<close>

text \<open>
  Strings are lists of characters with code points below 256. \<^verbatim>\<open>str.strip()\<close> removes
  the characters for which \<^verbatim>\<open>str.isspace\<close> holds from both ends; below 256 these
  are the code points 9 to 13, 28 to 32, 133 and 160.
\<close>

definition is_space :: "char \<Rightarrow> bool" where
  "is_space c = (c \<in> {CHR 0x09, CHR 0x0A, CHR 0x0B, CHR 0x0C, CHR 0x0D, CHR 0x1C, CHR 0x1D,
                      CHR 0x1E, CHR 0x1F, CHR 0x20, CHR 0x85, CHR 0xA0})"

definition strip :: "string \<Rightarrow> string" where
  "strip s = rev (dropWhile is_space (rev (dropWhile is_space s)))"

definition startswith :: "string \<Rightarrow> string \<Rightarrow> bool" where
  "startswith s p = (take (length p) s = p)"

text \<open>\<^verbatim>\<open>str.split(sep)\<close> for a one-character separator: never the empty list.\<close>

fun split_on :: "char \<Rightarrow> string \<Rightarrow> string list" where
  "split_on c [] = [[]]"
| "split_on c (x # xs) =
     (if x = c then [] # split_on c xs
      else (case split_on c xs of
              [] \<Rightarrow> [[x]]
            | p # ps \<Rightarrow> (x # p) # ps))"

definition is_digit :: "char \<Rightarrow> bool" where
  "is_digit c = (c \<in> set ''0123456789'')"

definition digit_val :: "char \<Rightarrow> int" where
  "digit_val c = of_char c - 48"

text \<open>
  The digits of an \<^verbatim>\<open>int()\<close> literal in base 10: decimal digits, with single
  underscores allowed between two digits. The flag tells whether the previous character
  was a digit.
\<close>

fun py_digits :: "int \<Rightarrow> bool \<Rightarrow> string \<Rightarrow> int option" where
  "py_digits acc prev [] = (if prev then Some acc else None)"
| "py_digits acc prev (c # cs) =
     (if is_digit c then py_digits (10 * acc + digit_val c) True cs
      else if c = CHR ''_'' \<and> prev then py_digits acc False cs
      else None)"

datatype py_exception = ValueError

text \<open>
  \<^verbatim>\<open>int(s)\<close> for a string without surrounding whitespace, as \<^verbatim>\<open>strip\<close> returns it: an
  optional sign and the digits; anything else raises \<^verbatim>\<open>ValueError\<close>. The length limit
  of CPython 3.11 and later (4300 digits by default) is not part of the model.
\<close>

definition py_int :: "string \<Rightarrow> py_exception + int" where
  "py_int s =
     (case s of
        [] \<Rightarrow> Inl ValueError
      | c # cs \<Rightarrow>
          if c = CHR ''+'' then (case py_digits 0 False cs of None \<Rightarrow> Inl ValueError | Some n \<Rightarrow> Inr n)
          else if c = CHR ''-'' then (case py_digits 0 False cs of None \<Rightarrow> Inl ValueError | Some n \<Rightarrow> Inr (- n))
          else (case py_digits 0 False s of None \<Rightarrow> Inl ValueError | Some n \<Rightarrow> Inr n))"

text \<open>The body of the \<^verbatim>\<open>try\<close> block of \<^verbatim>\<open>parse_callback_data\<close>.\<close>

definition parse_callback_data_try :: "string \<Rightarrow> string \<Rightarrow> py_exception + int option" where
  "parse_callback_data_try callback_data action =
     (if callback_data = [] then Inr None
      else if \<not> startswith callback_data (action @ '':'') then Inr None
      else (let parts = split_on CHR '':'' callback_data in
            if length parts \<noteq> 2 then Inr None
            else (let id_str = strip (parts ! 1) in
                  if id_str = [] then Inr None
                  else (case py_int id_str of
                          Inl e \<Rightarrow> Inl e
                        | Inr parsed_id \<Rightarrow> if parsed_id \<le> 0 then Inr None else Inr (Some parsed_id)))))"

text \<open>Both handlers (\<^verbatim>\<open>ValueError\<close> and \<^verbatim>\<open>Exception\<close>) return \<^verbatim>\<open>None\<close>.\<close>

definition parse_callback_data :: "string \<Rightarrow> string \<Rightarrow> int option" where
  "parse_callback_data callback_data action =
     (case parse_callback_data_try callback_data action of
        Inl e \<Rightarrow> None
      | Inr r \<Rightarrow> r)"

text \<open>
  The payload format in the words of the spec: the action, a colon, and a positive
  integer written in decimal digits.
\<close>

definition decimal_value :: "string \<Rightarrow> int" where
  "decimal_value ds = foldl (\<lambda>acc c. 10 * acc + digit_val c) 0 ds"

definition spec_parse_callback_data :: "string \<Rightarrow> string \<Rightarrow> int option" where
  "spec_parse_callback_data callback_data action =
     (let p = action @ '':''; ds = drop (length p) callback_data in
      if take (length p) callback_data = p \<and> ds \<noteq> [] \<and> list_all is_digit ds \<and> 0 < decimal_value ds
      then Some (decimal_value ds) else None)"

section \<open>The retrying HTTP calls (src/services/retailcrm_service.py)\<close>

text \<open>
  What one HTTP attempt can raise. The first four are \<^verbatim>\<open>requests.RequestException\<close> or
  subclasses of it (\<^verbatim>\<open>Timeout\<close>, \<^verbatim>\<open>ConnectionError\<close>, and \<^verbatim>\<open>HTTPError\<close>, which
  \<^verbatim>\<open>raise_for_status\<close> raises with the status code); the last stands for every
  exception outside that class.
\<close>

datatype request_error =
    Timeout
  | ConnectionError
  | HTTPError nat
  | OtherRequestException
  | OtherException

fun isinstance_RequestException :: "request_error \<Rightarrow> bool" where
  "isinstance_RequestException Timeout = True"
| "isinstance_RequestException ConnectionError = True"
| "isinstance_RequestException (HTTPError s) = True"
| "isinstance_RequestException OtherRequestException = True"
| "isinstance_RequestException OtherException = False"

fun isinstance_Timeout :: "request_error \<Rightarrow> bool" where
  "isinstance_Timeout Timeout = True"
| "isinstance_Timeout e = False"

text \<open>
  The arguments of the decorator on \<^verbatim>\<open>_make_get_request\<close> and \<^verbatim>\<open>_make_post_request\<close>:
  \<^verbatim>\<open>retry_if_exception_type((requests.RequestException, requests.Timeout))\<close>,
  \<^verbatim>\<open>stop_after_attempt(3)\<close>, \<^verbatim>\<open>wait_exponential(multiplier=1, min=2, max=10)\<close>.
  The wait after attempt \<open>k\<close> is \<open>multiplier * 2 ^ (k - 1)\<close> clamped to \<open>[min, max]\<close>.
\<close>

definition retry_if_exception_type :: "request_error \<Rightarrow> bool" where
  "retry_if_exception_type e = (isinstance_RequestException e \<or> isinstance_Timeout e)"

definition stop_after_attempt :: "nat \<Rightarrow> nat \<Rightarrow> bool" where
  "stop_after_attempt max_attempt_number attempt_number = (attempt_number \<ge> max_attempt_number)"

definition wait_exponential :: "nat \<Rightarrow> nat \<Rightarrow> nat \<Rightarrow> nat \<Rightarrow> nat" where
  "wait_exponential multiplier mn mx attempt_number =
     max mn (min (multiplier * 2 ^ (attempt_number - 1)) mx)"

text \<open>
  What the server does with one attempt: the transport fails, or a response with a status
  code arrives.
\<close>

datatype http_attempt = Fails request_error | Responds nat

definition raise_for_status :: "nat \<Rightarrow> request_error option" where
  "raise_for_status status_code =
     (if 400 \<le> status_code \<and> status_code < 600 then Some (HTTPError status_code) else None)"

text \<open>The decorated body: the request, then \<^verbatim>\<open>response.raise_for_status()\<close>.\<close>

definition request_body :: "http_attempt \<Rightarrow> request_error + nat" where
  "request_body att =
     (case att of
        Fails e \<Rightarrow> Inl e
      | Responds status_code \<Rightarrow>
          (case raise_for_status status_code of
             Some e \<Rightarrow> Inl e
           | None \<Rightarrow> Inr status_code))"

text \<open>
  The retry loop. The server's behaviour is given per attempt number (from 1). The result
  is the response, the exception of the body when it is not retried, or \<^verbatim>\<open>RetryError\<close> when
  the attempts are used up; with it, the number of attempts made and the waits slept.
\<close>

datatype call_error = Reraised request_error | RetryError request_error

function retry_call ::
  "(nat \<Rightarrow> http_attempt) \<Rightarrow> nat \<Rightarrow> nat list \<Rightarrow> (call_error + nat) \<times> nat \<times> nat list" where
  "retry_call server attempt_number sleeps =
     (case request_body (server attempt_number) of
        Inr response \<Rightarrow> (Inr response, attempt_number, sleeps)
      | Inl e \<Rightarrow>
          if \<not> retry_if_exception_type e then (Inl (Reraised e), attempt_number, sleeps)
          else if stop_after_attempt 3 attempt_number
          then (Inl (RetryError e), attempt_number, sleeps)
          else retry_call server (Suc attempt_number)
                 (sleeps @ [wait_exponential 1 2 10 attempt_number]))"
  by pat_completeness auto
termination
  by (relation "measure (\<lambda>(server, attempt_number, sleeps). 3 - attempt_number)")
     (auto simp: stop_after_attempt_def)

declare retry_call.simps [simp del]

definition make_get_request :: "(nat \<Rightarrow> http_attempt) \<Rightarrow> (call_error + nat) \<times> nat \<times> nat list" where
  "make_get_request server = retry_call server 1 []"

definition make_post_request :: "(nat \<Rightarrow> http_attempt) \<Rightarrow> (call_error + nat) \<times> nat \<times> nat list" where
  "make_post_request server = retry_call server 1 []"

section \<open>The order monitor (src/services/order_monitor_service.py)\<close>

text \<open>
  An order as the backend returns it, with the fields the monitor reads: \<^verbatim>\<open>id\<close>,
  \<^verbatim>\<open>number\<close>, \<^verbatim>\<open>status\<close>, \<^verbatim>\<open>totalSumm\<close>, \<^verbatim>\<open>shipmentStore\<close> and the \<^verbatim>\<open>code\<close> of
  \<^verbatim>\<open>delivery\<close>. A field that may be missing is an option.
\<close>

record order =
  ord_id :: int
  ord_number :: "string option"
  ord_status :: "string option"
  totalSumm :: "rat option"
  shipmentStore :: "string option"
  delivery_code :: "string option"

text \<open>A call that returns a value or lets an exception escape.\<close>

datatype 'a outcome = Raised | Returned 'a

text \<open>
  \<^verbatim>\<open>get_orders_by_status\<close> fetches one page of orders and keeps those with the given
  status. The page is \<open>Returned []\<close> when the request failed with a
  \<^verbatim>\<open>RequestException\<close> (caught inside) or the answer has no orders, and \<open>Raised\<close> when
  another exception escapes the call.
\<close>

definition get_orders_by_status :: "string \<Rightarrow> order list outcome \<Rightarrow> order list outcome" where
  "get_orders_by_status status_code page =
     (case page of
        Raised \<Rightarrow> Raised
      | Returned all_orders \<Rightarrow>
          Returned (filter (\<lambda>order. ord_status order = Some status_code) all_orders))"

text \<open>
  The monitor object: the admin table (user id, warehouse, chat id) in the order of the
  configuration, and the two status codes read from the settings.
\<close>

record monitor =
  admin_config :: "(string \<times> string \<times> string) list"
  TARGET_STATUS_CODE :: string
  STATUS_RETURNED :: string

definition get_admins_for_warehouse :: "monitor \<Rightarrow> string \<Rightarrow> (string \<times> string) list" where
  "get_admins_for_warehouse mon code =
     map (\<lambda>(user_id, warehouse, chat_id). (user_id, chat_id))
       (filter (\<lambda>(user_id, warehouse, chat_id). warehouse = code) (admin_config mon))"

text \<open>
  The calls to the messaging platform. A request names the chat; those with a reply
  markup carry the order id of the keyboard's buttons. The platform's answer to a request
  may depend on all requests made before it.
\<close>

datatype request =
    SendPhoto string string string int
  | SendMediaGroup string "string list" string
  | SendMessage string string int
  | SendChooseAction string int

datatype send_result =
    Delivered
  | TelegramBadRequest
  | TelegramForbiddenError
  | TelegramRetryAfter nat
  | TelegramNetworkError
  | OtherError

type_synonym bot_api = "request list \<Rightarrow> request \<Rightarrow> send_result"

fun req_chat :: "request \<Rightarrow> string" where
  "req_chat (SendPhoto chat_id photo caption keyboard) = chat_id"
| "req_chat (SendMediaGroup chat_id media caption) = chat_id"
| "req_chat (SendMessage chat_id text keyboard) = chat_id"
| "req_chat (SendChooseAction chat_id keyboard) = chat_id"

fun req_keyboard :: "request \<Rightarrow> int option" where
  "req_keyboard (SendPhoto chat_id photo caption keyboard) = Some keyboard"
| "req_keyboard (SendMediaGroup chat_id media caption) = None"
| "req_keyboard (SendMessage chat_id text keyboard) = Some keyboard"
| "req_keyboard (SendChooseAction chat_id keyboard) = Some keyboard"

definition api_call :: "bot_api \<Rightarrow> request list \<Rightarrow> request \<Rightarrow> send_result \<times> request list" where
  "api_call tbot sent req = (tbot sent req, sent @ [req])"

text \<open>
  The inner part of the loop body of \<^verbatim>\<open>send_notification_to_warehouse_admins\<close>: photo or
  album when there are images, with the text-only fallback on \<^verbatim>\<open>TelegramBadRequest\<close>;
  plain text otherwise. The result is \<open>Delivered\<close> or the exception that reaches the outer
  handlers.
\<close>

definition attempt_send ::
  "bot_api \<Rightarrow> request list \<Rightarrow> string \<Rightarrow> string \<Rightarrow> int \<Rightarrow> string list \<Rightarrow> send_result \<times> request list" where
  "attempt_send tbot sent chat_id message keyboard image_urls =
     (if image_urls \<noteq> [] then
        (let (r, s1) =
               (if length image_urls = 1
                then api_call tbot sent (SendPhoto chat_id (hd image_urls) message keyboard)
                else (let (r1, s1) = api_call tbot sent
                                       (SendMediaGroup chat_id (take 10 image_urls) message)
                      in if r1 = Delivered
                         then api_call tbot s1 (SendChooseAction chat_id keyboard)
                         else (r1, s1)))
         in if r = TelegramBadRequest
            then api_call tbot s1 (SendMessage chat_id message keyboard)
            else (r, s1))
      else api_call tbot sent (SendMessage chat_id message keyboard))"

text \<open>
  The whole loop body for one recipient: after \<^verbatim>\<open>TelegramRetryAfter\<close> one more text
  message is tried; every other exception is logged and dropped. The result says how the
  last request to this recipient ended.
\<close>

definition send_to_admin ::
  "bot_api \<Rightarrow> request list \<Rightarrow> string \<Rightarrow> string \<Rightarrow> int \<Rightarrow> string list \<Rightarrow> send_result \<times> request list" where
  "send_to_admin tbot sent chat_id message keyboard image_urls =
     (let (r, s1) = attempt_send tbot sent chat_id message keyboard image_urls
      in case r of
           TelegramRetryAfter retry_after \<Rightarrow> api_call tbot s1 (SendMessage chat_id message keyboard)
         | _ \<Rightarrow> (r, s1))"

fun send_to_admins ::
  "bot_api \<Rightarrow> request list \<Rightarrow> (string \<times> string) list \<Rightarrow> string \<Rightarrow> int \<Rightarrow> string list
     \<Rightarrow> send_result list \<times> request list" where
  "send_to_admins tbot sent [] message keyboard image_urls = ([], sent)"
| "send_to_admins tbot sent ((user_id, chat_id) # target_admins) message keyboard image_urls =
     (let (r, s1) = send_to_admin tbot sent chat_id message keyboard image_urls;
          (rs, s2) = send_to_admins tbot s1 target_admins message keyboard image_urls
      in (r # rs, s2))"

definition send_notification_to_warehouse_admins ::
  "monitor \<Rightarrow> bot_api \<Rightarrow> request list \<Rightarrow> order \<Rightarrow> string \<Rightarrow> int \<Rightarrow> string list
     \<Rightarrow> send_result list \<times> request list" where
  "send_notification_to_warehouse_admins mon tbot sent order message keyboard image_urls =
     (case shipmentStore order of
        None \<Rightarrow> ([], sent)
      | Some store_code \<Rightarrow>
          if store_code = [] then ([], sent)
          else (let target_admins = get_admins_for_warehouse mon store_code
                in if target_admins = [] then ([], sent)
                   else send_to_admins tbot sent target_admins message keyboard image_urls))"

text \<open>
  The state a pass works on: the database and the requests made to the platform so far.
  Whether the database is locked does not change within one pass; the pauses between
  sends are not part of the state.
\<close>

record world =
  ledger :: db_state
  outbox :: "request list"

datatype pass_error = DatabaseError db_error | BackendError

text \<open>
  The calls that \<^verbatim>\<open>_check_orders_returned_from_no_product\<close> makes on the database:
  \<^verbatim>\<open>mark_order_returned_from_no_product\<close>, \<^verbatim>\<open>reset_order_for_renotification\<close> and
  \<^verbatim>\<open>log_error\<close>, with their arguments. The run is followed call by call: each call is
  kept with the database as it left it.
\<close>

datatype ledger_call =
    CallMarkReturned int
  | CallReset int
  | CallLogError string "int option"

text \<open>
  The loop of \<^verbatim>\<open>_check_orders_returned_from_no_product\<close> over the rows read at its
  start. \<open>fetch\<close> is \<^verbatim>\<open>get_order_by_id\<close> during this pass. The result is the list
  built so far or the exception, the calls made on the database, and the database. The
  database is returned also when \<^verbatim>\<open>log_error\<close> raises, since the statements before it
  are committed.
\<close>

fun returned_loop ::
  "string \<Rightarrow> (int \<Rightarrow> order option outcome) \<Rightarrow> nat \<Rightarrow> processed_order list \<Rightarrow> order list
     \<Rightarrow> (ledger_call \<times> db_state) list \<Rightarrow> db_state
     \<Rightarrow> order list outcome \<times> (ledger_call \<times> db_state) list \<times> db_state" where
  "returned_loop st_returned fetch now [] returned_orders calls d =
     (Returned returned_orders, calls, d)"
| "returned_loop st_returned fetch now (po # rest) returned_orders calls d =
     (if \<not> was_in_no_product po
      then returned_loop st_returned fetch now rest returned_orders calls d
      else if returned_from_no_product po
      then returned_loop st_returned fetch now rest returned_orders calls d
      else (case fetch (order_id po) of
              Raised \<Rightarrow> returned_loop st_returned fetch now rest returned_orders calls d
            | Returned None \<Rightarrow> returned_loop st_returned fetch now rest returned_orders calls d
            | Returned (Some current_order) \<Rightarrow>
                if ord_status current_order = Some st_returned
                then (let (ok1, d1) = mark_order_returned_from_no_product now (order_id po) d;
                          (ok2, d2) = reset_order_for_renotification (order_id po) d1;
                          calls2 = calls @ [(CallMarkReturned (order_id po), d1),
                                            (CallReset (order_id po), d2)]
                      in case log_error ''order_returned_from_no_product'' (Some (order_id po)) d2 of
                           Inl e \<Rightarrow>
                             (Raised,
                              calls2 @ [(CallLogError ''order_returned_from_no_product''
                                           (Some (order_id po)), d2)],
                              d2)
                         | Inr d3 \<Rightarrow>
                             returned_loop st_returned fetch now rest
                               (returned_orders @ [current_order])
                               (calls2 @ [(CallLogError ''order_returned_from_no_product''
                                             (Some (order_id po)), d3)])
                               d3)
                else returned_loop st_returned fetch now rest returned_orders calls d))"

text \<open>
  \<^verbatim>\<open>_check_orders_returned_from_no_product\<close>: the list it returns (empty when an
  exception reached its handler), the calls it made on the database, and the database
  after it.
\<close>

definition check_orders_returned_from_no_product ::
  "monitor \<Rightarrow> (int \<Rightarrow> order option outcome) \<Rightarrow> nat \<Rightarrow> db_state
     \<Rightarrow> order list \<times> (ledger_call \<times> db_state) list \<times> db_state" where
  "check_orders_returned_from_no_product mon fetch now d =
     (let processed = get_all_processed_orders d
      in if processed = [] then ([], [], d)
         else (case returned_loop (STATUS_RETURNED mon) fetch now processed [] [] d of
                 (Raised, calls, d') \<Rightarrow> ([], calls, d')
               | (Returned returned_orders, calls, d') \<Rightarrow> (returned_orders, calls, d')))"

text \<open>The list comprehension that keeps the orders without a row.\<close>

fun filter_new_orders :: "order list \<Rightarrow> db_state \<Rightarrow> db_error + order list" where
  "filter_new_orders [] d = Inr []"
| "filter_new_orders (order # orders) d =
     (case is_order_processed (ord_id order) d of
        Inl e \<Rightarrow> Inl e
      | Inr processed \<Rightarrow>
          (case filter_new_orders orders d of
             Inl e \<Rightarrow> Inl e
           | Inr rest \<Rightarrow> Inr (if processed then rest else order # rest)))"

text \<open>
  The first half of \<^verbatim>\<open>check_orders_with_status\<close>: the orders with the target status,
  then those that returned from no-product, then the filter.
\<close>

definition detect_new_orders ::
  "monitor \<Rightarrow> order list outcome \<Rightarrow> (int \<Rightarrow> order option outcome) \<Rightarrow> nat \<Rightarrow> db_state
     \<Rightarrow> (pass_error + order list) \<times> db_state" where
  "detect_new_orders mon page fetch now d =
     (case get_orders_by_status (TARGET_STATUS_CODE mon) page of
        Raised \<Rightarrow> (Inl BackendError, d)
      | Returned orders \<Rightarrow>
          (let (returned_orders, calls, d1) =
                 check_orders_returned_from_no_product mon fetch now d;
               all_orders = orders @ returned_orders
           in if all_orders = [] then (Inr [], d1)
              else (case filter_new_orders all_orders d1 of
                      Inl e \<Rightarrow> (Inl (DatabaseError e), d1)
                    | Inr new_orders \<Rightarrow> (Inr new_orders, d1))))"

text \<open>
  The body of the loop over the new orders. \<open>render\<close> stands for
  \<^verbatim>\<open>format_order_notification\<close> and \<^verbatim>\<open>get_product_images_from_order\<close>: the message
  text and the image links, or an exception. The handler of the body logs the failure;
  the result is the exception that leaves the body, if any.
\<close>

definition process_order ::
  "monitor \<Rightarrow> (order \<Rightarrow> (string \<times> string list) outcome) \<Rightarrow> bot_api \<Rightarrow> nat \<Rightarrow> order \<Rightarrow> world
     \<Rightarrow> pass_error option \<times> world" where
  "process_order mon render tbot now order w =
     (let oid = ord_id order;
          number = (case ord_number order of None \<Rightarrow> ''N/A'' | Some n \<Rightarrow> n);
          tsum = (case totalSumm order of None \<Rightarrow> 0 | Some t \<Rightarrow> t);
          wcode = (case shipmentStore order of None \<Rightarrow> ''N/A'' | Some c \<Rightarrow> c);
          dtype = (case delivery_code order of None \<Rightarrow> [] | Some c \<Rightarrow> c)
      in case render order of
           Raised \<Rightarrow>
             (case log_error ''order_processing_failed'' (Some oid) (ledger w) of
                Inl e \<Rightarrow> (Some (DatabaseError e), w)
              | Inr d' \<Rightarrow> (None, w\<lparr>ledger := d'\<rparr>))
         | Returned (message, image_urls) \<Rightarrow>
             (let (results, sent') =
                    send_notification_to_warehouse_admins mon tbot (outbox w) order message oid
                      image_urls;
                  (ok, d') = save_processed_order now oid number (TARGET_STATUS_CODE mon)
                               (Some dtype) (Some tsum) None (Some wcode) (ledger w)
              in (None, \<lparr>ledger = d', outbox = sent'\<rparr>)))"

fun process_new_orders ::
  "monitor \<Rightarrow> (order \<Rightarrow> (string \<times> string list) outcome) \<Rightarrow> bot_api \<Rightarrow> nat \<Rightarrow> order list \<Rightarrow> world
     \<Rightarrow> pass_error option \<times> world" where
  "process_new_orders mon render tbot now [] w = (None, w)"
| "process_new_orders mon render tbot now (order # orders) w =
     (case process_order mon render tbot now order w of
        (Some e, w') \<Rightarrow> (Some e, w')
      | (None, w') \<Rightarrow> process_new_orders mon render tbot now orders w')"

text \<open>
  \<^verbatim>\<open>check_orders_with_status\<close>: the \<^verbatim>\<open>try\<close> block, and the handler that logs
  \<^verbatim>\<open>monitoring_check_failed\<close>. The result is the exception that leaves the function.
\<close>

definition check_orders_try ::
  "monitor \<Rightarrow> order list outcome \<Rightarrow> (int \<Rightarrow> order option outcome)
     \<Rightarrow> (order \<Rightarrow> (string \<times> string list) outcome) \<Rightarrow> bot_api \<Rightarrow> nat \<Rightarrow> world
     \<Rightarrow> pass_error option \<times> world" where
  "check_orders_try mon page fetch render tbot now w =
     (case detect_new_orders mon page fetch now (ledger w) of
        (Inl e, d1) \<Rightarrow> (Some e, w\<lparr>ledger := d1\<rparr>)
      | (Inr new_orders, d1) \<Rightarrow> process_new_orders mon render tbot now new_orders (w\<lparr>ledger := d1\<rparr>))"

definition check_orders_with_status ::
  "monitor \<Rightarrow> order list outcome \<Rightarrow> (int \<Rightarrow> order option outcome)
     \<Rightarrow> (order \<Rightarrow> (string \<times> string list) outcome) \<Rightarrow> bot_api \<Rightarrow> nat \<Rightarrow> world
     \<Rightarrow> pass_error option \<times> world" where
  "check_orders_with_status mon page fetch render tbot now w =
     (case check_orders_try mon page fetch render tbot now w of
        (None, w') \<Rightarrow> (None, w')
      | (Some e, w') \<Rightarrow>
          (case log_error ''monitoring_check_failed'' None (ledger w') of
             Inl e' \<Rightarrow> (Some (DatabaseError e'), w')
           | Inr d' \<Rightarrow> (None, w'\<lparr>ledger := d'\<rparr>)))"

text \<open>
  A row is a pending return when it is flagged as having been in no-product, not yet as
  returned, and the order fetched for its id has the returned status.
\<close>

definition pending_return ::
  "monitor \<Rightarrow> (int \<Rightarrow> order option outcome) \<Rightarrow> processed_order \<Rightarrow> bool" where
  "pending_return mon fetch r =
     (was_in_no_product r \<and> \<not> returned_from_no_product r \<and>
      (case fetch (order_id r) of
         Returned (Some current_order) \<Rightarrow> ord_status current_order = Some (STATUS_RETURNED mon)
       | _ \<Rightarrow> False))"

text \<open>The rows of one order.\<close>

definition rows_of :: "int \<Rightarrow> db_state \<Rightarrow> processed_order list" where
  "rows_of i d = filter (\<lambda>r. order_id r = i) (processed_orders d)"

text \<open>
  What a call on the database did to the order it names: the order id of the call, and the
  call together with the rows of that order in the database as the call left it.
\<close>

fun call_order :: "ledger_call \<Rightarrow> int option" where
  "call_order (CallMarkReturned oid) = Some oid"
| "call_order (CallReset oid) = Some oid"
| "call_order (CallLogError error_type oid) = oid"

definition call_effect :: "ledger_call \<times> db_state \<Rightarrow> ledger_call \<times> processed_order list" where
  "call_effect c =
     (fst c, case call_order (fst c) of None \<Rightarrow> [] | Some oid \<Rightarrow> rows_of oid (snd c))"

text \<open>
  The three calls of one round trip, for a row of the snapshot: the marker leaves the row
  with \<^verbatim>\<open>returned_from_no_product\<close> set, the reset leaves the order without a row, and
  so does the log entry.
\<close>

definition round_trip :: "nat \<Rightarrow> processed_order \<Rightarrow> (ledger_call \<times> processed_order list) list" where
  "round_trip now r =
     [(CallMarkReturned (order_id r), [r\<lparr>returned_from_no_product := True, updated_at := now\<rparr>]),
      (CallReset (order_id r), []),
      (CallLogError ''order_returned_from_no_product'' (Some (order_id r)), [])]"

text \<open>The order that the detection of returns yields for a row, if any.\<close>

definition returned_order ::
  "monitor \<Rightarrow> (int \<Rightarrow> order option outcome) \<Rightarrow> processed_order \<Rightarrow> order option" where
  "returned_order mon fetch r =
     (if pending_return mon fetch r
      then (case fetch (order_id r) of Returned (Some current_order) \<Rightarrow> Some current_order
            | _ \<Rightarrow> None)
      else None)"

text \<open>
  A request is addressed to a chat for an order when it goes to that chat and its keyboard,
  if it has one, carries that order's id.
\<close>

definition addressed :: "string \<Rightarrow> int \<Rightarrow> request \<Rightarrow> bool" where
  "addressed chat_id keyboard r =
     (req_chat r = chat_id \<and> (req_keyboard r = None \<or> req_keyboard r = Some keyboard))"

text \<open>Examples.\<close>

definition shop :: monitor where
  "shop = \<lparr>admin_config = [(''11'', ''20'', ''101''), (''12'', ''20'', ''102''),
                            (''13'', ''20'', ''103''), (''14'', ''25'', ''104'')],
           TARGET_STATUS_CODE = ''target'', STATUS_RETURNED = ''returned''\<rparr>"

definition order_at :: "int \<Rightarrow> string \<Rightarrow> order" where
  "order_at oid st =
     \<lparr>ord_id = oid, ord_number = Some ''A-1'', ord_status = Some st, totalSumm = Some 10,
      shipmentStore = Some ''20'', delivery_code = Some ''courier''\<rparr>"

definition second_blocked :: bot_api where
  "second_blocked hist req = (if req_chat req = ''102'' then TelegramForbiddenError else Delivered)"

definition empty_world :: world where
  "empty_world = \<lparr>ledger = db_of [], outbox = []\<rparr>"

definition flagged_world :: world where
  "flagged_world = \<lparr>ledger = db_of [flagged_row 7, plain_row 8], outbox = []\<rparr>"

text \<open>Three rows written at the same second, the first and the last flagged.\<close>

definition three_rows :: db_state where
  "three_rows = db_of [flagged_row 7, plain_row 8, flagged_row 9]"

definition returned_now :: "int \<Rightarrow> order option outcome" where
  "returned_now i = Returned (Some (order_at i ''returned''))"

text \<open>
  A configuration in which the returned status is the target status, as the comments of
  \<^verbatim>\<open>check_orders_with_status\<close> and \<^verbatim>\<open>_check_orders_returned_from_no_product\<close> have it
  (both name \<^verbatim>\<open>otpravlen-v-sborku\<close>); the backend then answers with the target status
  on the page and on the lookup by id, and the platform delivers every request.
\<close>

definition one_status_shop :: monitor where
  "one_status_shop = shop\<lparr>STATUS_RETURNED := ''target''\<rparr>"

definition target_now :: "int \<Rightarrow> order option outcome" where
  "target_now i = Returned (Some (order_at i ''target''))"

definition all_delivered :: bot_api where
  "all_delivered hist req = Delivered"

definition plain_text :: "order \<Rightarrow> (string \<times> string list) outcome" where
  "plain_text order = Returned (''text'', [])"

section \<open>Ledger lemmas\<close>

lemma find_None_filter: "find P xs = None \<Longrightarrow> filter P xs = []"
  by (induction xs) (auto split: if_splits)

lemma find_Some_mem: "find P xs = Some x \<Longrightarrow> x \<in> set xs \<and> P x"
  by (induction xs) (auto split: if_splits)

lemma find_unique_key:
  "distinct (map f xs) \<Longrightarrow> x \<in> set xs \<Longrightarrow> find (\<lambda>r. f r = f x) xs = Some x"
proof (induction xs)
  case Nil
  then show ?case by simp
next
  case (Cons y ys)
  show ?case
  proof (cases "y = x")
    case True
    then show ?thesis by simp
  next
    case False
    with Cons.prems have mem: "x \<in> set ys" by simp
    with Cons.prems have "f y \<noteq> f x" by force
    with Cons mem show ?thesis by simp
  qed
qed

lemma map_no_match: "\<forall>r\<in>set xs. \<not> P r \<Longrightarrow> map (\<lambda>r. if P r then g r else r) xs = xs"
  by (induction xs) auto

lemma filter_no_match: "\<forall>r\<in>set xs. \<not> P r \<Longrightarrow> filter P xs = []"
  by (induction xs) auto

section \<open>Rate limiter lemmas\<close>

lemma check_rate_limit_fresh:
  assumes "connected rl" "redis_lookup now store (get_key rl i a) = None"
  shows "check_rate_limit rl no_faults now i a limit window store =
     ((1 > limit, max 0 (limit - 1)), store(get_key rl i a \<mapsto> (1, Some (now + window))))"
  using assms
  by (simp add: check_rate_limit_def check_rate_limit_try_def no_faults_def redis_incr_def
      redis_expire_def redis_lookup_def Let_def)

lemma check_rate_limit_live:
  assumes "connected rl" "store (get_key rl i a) = Some (v, Some e)" "now < e" "v \<noteq> 0"
  shows "check_rate_limit rl no_faults now i a limit window store =
     ((v + 1 > limit, max 0 (limit - (v + 1))), store(get_key rl i a \<mapsto> (v + 1, Some e)))"
  using assms
  by (simp add: check_rate_limit_def check_rate_limit_try_def no_faults_def redis_incr_def
      redis_lookup_def Let_def)

lemma check_rate_limit_general:
  assumes "connected rl"
  shows "check_rate_limit rl no_faults now i a limit window store =
      (let key = get_key rl i a; c = post_increment now store key in
        ((c > limit, max 0 (limit - c)),
          store(key \<mapsto> (c, if c = 1 then Some (now + window)
                 else (case redis_lookup now store key of None \<Rightarrow> None | Some (v, e) \<Rightarrow> e)))))"
  using assms
  by (auto simp: check_rate_limit_def check_rate_limit_try_def no_faults_def redis_incr_def
      redis_expire_def redis_lookup_def post_increment_def Let_def split: option.splits)

lemma check_series_window:
  assumes c: "connected rl" and fresh: "redis_lookup t1 store (get_key rl i a) = None"
    and t: "t1 \<le> t2" "t2 \<le> t3" "t3 \<le> t4" "t4 \<le> t5" "t5 \<le> t6" "t6 < t1 + 60"
  shows "check_series rl [t1, t2, t3, t4, t5, t6] i a 5 60 store =
      ([(False, 4), (False, 3), (False, 2), (False, 1), (False, 0), (True, 0)],
        store(get_key rl i a \<mapsto> (6, Some (t1 + 60))))"
proof -
  let ?k = "get_key rl i a"
  have s1: "check_rate_limit rl no_faults t1 i a 5 60 store =
      ((False, 4), store(?k \<mapsto> (1, Some (t1 + 60))))"
    using check_rate_limit_fresh [OF c fresh, of 5 60] by simp
  have step: "check_rate_limit rl no_faults t i a 5 60 (s(?k \<mapsto> (v, Some (t1 + 60)))) =
       ((v + 1 > 5, max 0 (5 - (v + 1))), s(?k \<mapsto> (v + 1, Some (t1 + 60))))"
    if "t < t1 + 60" "v \<noteq> 0" for t v s
    using check_rate_limit_live [OF c, of "s(?k \<mapsto> (v, Some (t1 + 60)))" i a v "t1 + 60" t 5 60]
      that by simp
  show ?thesis
    using t by (simp add: s1 step)
qed

section \<open>Payload parsing lemmas\<close>

lemma split_on_nonempty: "split_on c xs \<noteq> []"
  by (induction xs) (auto split: list.splits)

lemma split_on_notin: "c \<notin> set xs \<Longrightarrow> split_on c xs = [xs]"
  by (induction xs) auto

lemma split_on_append: "c \<notin> set p \<Longrightarrow> split_on c (p @ c # q) = p # split_on c q"
  by (induction p) auto

lemma split_on_decomp:
  "split_on c xs = p # ps \<Longrightarrow>
     c \<notin> set p \<and> (if ps = [] then xs = p else (\<exists>q. xs = p @ c # q \<and> split_on c q = ps))"
proof (induction xs arbitrary: p ps)
  case Nil
  then show ?case by simp
next
  case (Cons x xs)
  show ?case
  proof (cases "x = c")
    case True
    with Cons.prems show ?thesis using split_on_nonempty [of c xs] by auto
  next
    case False
    obtain p' ps' where s: "split_on c xs = p' # ps'"
      using split_on_nonempty [of c xs] by (cases "split_on c xs") auto
    with Cons.prems False have eq: "p = x # p'" "ps = ps'" by auto
    from Cons.IH [OF s] eq False show ?thesis by auto
  qed
qed

lemma split_on_two:
  "length (split_on c xs) = 2 \<longleftrightarrow> (\<exists>p q. xs = p @ c # q \<and> c \<notin> set p \<and> c \<notin> set q)"
proof
  assume "length (split_on c xs) = 2"
  then obtain p q where s: "split_on c xs = [p, q]"
    by (cases "split_on c xs"; cases "tl (split_on c xs)") auto
  from split_on_decomp [OF s] obtain r where r: "c \<notin> set p" "xs = p @ c # r" "split_on c r = [q]"
    by auto
  from split_on_decomp [OF r(3)] have "c \<notin> set q" "r = q" by auto
  with r show "\<exists>p q. xs = p @ c # q \<and> c \<notin> set p \<and> c \<notin> set q" by blast
next
  assume "\<exists>p q. xs = p @ c # q \<and> c \<notin> set p \<and> c \<notin> set q"
  then show "length (split_on c xs) = 2"
    by (auto simp: split_on_append split_on_notin)
qed

lemma prefix_unique_sep:
  assumes eq: "take (Suc (length a)) (p @ c # q) = a @ [c]" and np: "c \<notin> set p" and nq: "c \<notin> set q"
  shows "a = p"
proof -
  let ?n = "length a"
  have "length (take (Suc ?n) (p @ c # q)) = Suc ?n"
    using eq by simp
  then have bound: "?n < length (p @ c # q)"
    by simp
  have "(take (Suc ?n) (p @ c # q)) ! ?n = (p @ c # q) ! ?n"
    by (rule nth_take) simp
  moreover have "(take (Suc ?n) (p @ c # q)) ! ?n = (a @ [c]) ! ?n"
    by (simp only: eq)
  ultimately have at: "(p @ c # q) ! ?n = c"
    by simp
  have len: "?n = length p"
  proof (rule ccontr)
    assume ne: "?n \<noteq> length p"
    show False
    proof (cases "?n < length p")
      case True
      then have "p ! ?n = c" using at by (simp add: nth_append)
      with True np show False using nth_mem by metis
    next
      case False
      with ne have gt: "length p < ?n" by simp
      then obtain k where k: "?n - length p = Suc k" by (cases "?n - length p") auto
      have "(c # q) ! (?n - length p) = c" using at False by (simp add: nth_append)
      then have qk: "q ! k = c" using k by simp
      have "k < length q" using bound k by simp
      with qk nq show False using nth_mem by metis
    qed
  qed
  then have "take (Suc ?n) (p @ c # q) = p @ [c]"
    by simp
  with eq show ?thesis by simp
qed

lemma strip_digits: "list_all is_digit ds \<Longrightarrow> strip ds = ds"
proof -
  assume a: "list_all is_digit ds"
  have ns: "is_digit c \<Longrightarrow> \<not> is_space c" for c
    by (auto simp: is_digit_def is_space_def)
  have d: "dropWhile is_space xs = xs" if "list_all is_digit xs" for xs
    using that ns by (cases xs) auto
  have r: "list_all is_digit (rev ds)" using a by (simp add: list_all_iff)
  show ?thesis using d [OF a] d [OF r] by (simp add: strip_def)
qed

lemma py_digits_all:
  "list_all is_digit ds \<Longrightarrow> ds \<noteq> [] \<or> prev \<Longrightarrow>
     py_digits acc prev ds = Some (foldl (\<lambda>acc c. 10 * acc + digit_val c) acc ds)"
  by (induction ds arbitrary: acc prev) auto

lemma py_int_digits:
  assumes "list_all is_digit ds" "ds \<noteq> []"
  shows "py_int ds = Inr (decimal_value ds)"
proof -
  obtain c cs where ds: "ds = c # cs" using assms(2) by (cases ds) auto
  have "is_digit c" using assms(1) ds by simp
  then have "c \<noteq> CHR ''+''" "c \<noteq> CHR ''-''" by (auto simp: is_digit_def)
  then show ?thesis
    using py_digits_all [OF assms(1), of False 0] assms(2) ds
    by (simp add: py_int_def decimal_value_def)
qed

lemma parse_callback_data_Some:
  "parse_callback_data d a = Some n \<longleftrightarrow>
     (\<exists>body. d = a @ CHR '':'' # body \<and> CHR '':'' \<notin> set a \<and> CHR '':'' \<notin> set body \<and>
        py_int (strip body) = Inr n \<and> 0 < n)"
proof
  assume "parse_callback_data d a = Some n"
  then have st: "startswith d (a @ '':'')" and len: "length (split_on CHR '':'' d) = 2"
    and pi: "py_int (strip (split_on CHR '':'' d ! 1)) = Inr n" and pos: "0 < n"
    by (auto simp: parse_callback_data_def parse_callback_data_try_def Let_def
        split: if_splits sum.splits)
  from len obtain p q where pq: "d = p @ CHR '':'' # q" "CHR '':'' \<notin> set p" "CHR '':'' \<notin> set q"
    unfolding split_on_two by blast
  have "a = p"
    using st pq prefix_unique_sep [of a p "CHR '':''" q] by (simp add: startswith_def)
  moreover have "split_on CHR '':'' d = [p, q]"
    using pq by (simp add: split_on_append split_on_notin)
  ultimately show "\<exists>body. d = a @ CHR '':'' # body \<and> CHR '':'' \<notin> set a \<and> CHR '':'' \<notin> set body \<and>
        py_int (strip body) = Inr n \<and> 0 < n"
    using pq pi pos by auto
next
  assume "\<exists>body. d = a @ CHR '':'' # body \<and> CHR '':'' \<notin> set a \<and> CHR '':'' \<notin> set body \<and>
        py_int (strip body) = Inr n \<and> 0 < n"
  then obtain body where b: "d = a @ CHR '':'' # body" "CHR '':'' \<notin> set a" "CHR '':'' \<notin> set body"
        "py_int (strip body) = Inr n" "0 < n" by blast
  have sp: "split_on CHR '':'' (a @ CHR '':'' # body) = [a, body]"
    using b by (simp add: split_on_append split_on_notin)
  have ne: "strip body \<noteq> []" using b(4) by (auto simp: py_int_def)
  show "parse_callback_data d a = Some n"
    using b(4,5) ne unfolding b(1)
    by (simp add: parse_callback_data_def parse_callback_data_try_def Let_def sp
        startswith_def)
qed

lemma spec_parse_accepted:
  assumes "spec_parse_callback_data d a = Some n" "CHR '':'' \<notin> set a"
  shows "parse_callback_data d a = Some n"
proof -
  let ?ds = "drop (length (a @ '':'')) d"
  from assms(1) have h: "take (length (a @ '':'')) d = a @ '':''" "?ds \<noteq> []" "list_all is_digit ?ds"
     "0 < decimal_value ?ds" "n = decimal_value ?ds"
    by (auto simp: spec_parse_callback_data_def Let_def split: if_splits)
  have "d = take (length (a @ '':'')) d @ ?ds"
    by (simp only: append_take_drop_id)
  also have "\<dots> = (a @ '':'') @ ?ds"
    by (simp only: h(1))
  finally have d: "d = a @ CHR '':'' # ?ds"
    by simp
  have nd: "\<not> is_digit CHR '':''"
    by (simp add: is_digit_def)
  have nc: "CHR '':'' \<notin> set ?ds"
  proof
    assume "CHR '':'' \<in> set ?ds"
    with h(3) have "is_digit CHR '':''" by (simp only: list_all_iff)
    with nd show False by simp
  qed
  have "strip ?ds = ?ds"
    using h(3) by (rule strip_digits)
  moreover have "py_int ?ds = Inr (decimal_value ?ds)"
    using h(3) h(2) by (rule py_int_digits)
  ultimately have pi: "py_int (strip ?ds) = Inr n"
    by (simp only: h(5))
  have pos: "0 < n"
    using h(4) by (simp only: h(5))
  have "\<exists>body. d = a @ CHR '':'' # body \<and> CHR '':'' \<notin> set a \<and> CHR '':'' \<notin> set body \<and>
        py_int (strip body) = Inr n \<and> 0 < n"
    using d assms(2) nc pi pos by (intro exI [of _ ?ds] conjI)
  then show ?thesis
    by (simp only: parse_callback_data_Some)
qed

section \<open>Retry lemmas\<close>

lemma retry_call_third: "retry_call server 3 s =
  (case request_body (server 3) of
     Inr r \<Rightarrow> (Inr r, 3, s)
   | Inl e \<Rightarrow> if retry_if_exception_type e then (Inl (RetryError e), 3, s)
             else (Inl (Reraised e), 3, s))"
  by (subst retry_call.simps) (simp add: stop_after_attempt_def split: sum.splits)

lemma retry_call_second: "retry_call server 2 s =
  (case request_body (server 2) of
     Inr r \<Rightarrow> (Inr r, 2, s)
   | Inl e \<Rightarrow> if retry_if_exception_type e then retry_call server 3 (s @ [2])
             else (Inl (Reraised e), 2, s))"
  by (subst retry_call.simps)
     (simp add: stop_after_attempt_def wait_exponential_def eval_nat_numeral split: sum.splits)

lemma retry_call_first: "retry_call server (Suc 0) s =
  (case request_body (server (Suc 0)) of
     Inr r \<Rightarrow> (Inr r, Suc 0, s)
   | Inl e \<Rightarrow> if retry_if_exception_type e then retry_call server 2 (s @ [2])
             else (Inl (Reraised e), Suc 0, s))"
  by (subst retry_call.simps)
     (simp add: stop_after_attempt_def wait_exponential_def eval_nat_numeral split: sum.splits)

lemma retry_if_exception_type_iff: "retry_if_exception_type e = (e \<noteq> OtherException)"
  by (cases e) (simp_all add: retry_if_exception_type_def)

lemma isinstance_RequestException_iff: "isinstance_RequestException e = (e \<noteq> OtherException)"
  by (cases e) simp_all

lemma make_get_request_cases:
  "(case make_get_request server of (res, n, sleeps) \<Rightarrow>
     1 \<le> n \<and> n \<le> 3 \<and> sleeps = replicate (n - 1) 2 \<and>
     (\<forall>k. 1 \<le> k \<and> k < n \<longrightarrow> (\<exists>e. request_body (server k) = Inl e \<and> e \<noteq> OtherException)) \<and>
     (case res of
        Inr r \<Rightarrow> request_body (server n) = Inr r
      | Inl (Reraised e) \<Rightarrow> request_body (server n) = Inl e \<and> e = OtherException
      | Inl (RetryError e) \<Rightarrow> n = 3 \<and> request_body (server n) = Inl e \<and> e \<noteq> OtherException))"
proof -
  consider (a) r where "request_body (server 1) = Inr r"
    | (b) "request_body (server 1) = Inl OtherException"
    | (c) e1 r where "request_body (server 1) = Inl e1" "e1 \<noteq> OtherException"
         "request_body (server 2) = Inr r"
    | (d) e1 where "request_body (server 1) = Inl e1" "e1 \<noteq> OtherException"
         "request_body (server 2) = Inl OtherException"
    | (e) e1 e2 r where "request_body (server 1) = Inl e1" "e1 \<noteq> OtherException"
         "request_body (server 2) = Inl e2" "e2 \<noteq> OtherException"
         "request_body (server 3) = Inr r"
    | (f) e1 e2 e3 where "request_body (server 1) = Inl e1" "e1 \<noteq> OtherException"
         "request_body (server 2) = Inl e2" "e2 \<noteq> OtherException"
         "request_body (server 3) = Inl e3"
    by (cases "request_body (server 1)"; cases "request_body (server 2)";
        cases "request_body (server 3)") auto
  note cs = this
  have rep: "replicate (3 - 1) (2::nat) = [2, 2]" "replicate (2 - 1) (2::nat) = [2]"
    by (simp_all add: eval_nat_numeral)
  from cs show ?thesis
  proof cases
    case a
    then have res: "make_get_request server = (Inr r, 1, [])"
      by (simp add: make_get_request_def retry_call_first)
    show ?thesis unfolding res using a by simp
  next
    case b
    then have res: "make_get_request server = (Inl (Reraised OtherException), 1, [])"
      by (simp add: make_get_request_def retry_call_first retry_if_exception_type_iff)
    show ?thesis unfolding res using b by simp
  next
    case c
    then have res: "make_get_request server = (Inr r, 2, [2])"
      by (simp add: make_get_request_def retry_call_first retry_call_second
          retry_if_exception_type_iff)
    have ks: "\<exists>e. request_body (server k) = Inl e \<and> e \<noteq> OtherException"
      if "1 \<le> k \<and> k < 2" for k
    proof -
      from that have "k = 1" by arith
      with c show ?thesis by simp
    qed
    show ?thesis unfolding res using c rep ks by simp
  next
    case d
    then have res: "make_get_request server = (Inl (Reraised OtherException), 2, [2])"
      by (simp add: make_get_request_def retry_call_first retry_call_second
          retry_if_exception_type_iff)
    have ks: "\<exists>e. request_body (server k) = Inl e \<and> e \<noteq> OtherException"
      if "1 \<le> k \<and> k < 2" for k
    proof -
      from that have "k = 1" by arith
      with d show ?thesis by simp
    qed
    show ?thesis unfolding res using d rep ks by simp
  next
    case e
    then have res: "make_get_request server = (Inr r, 3, [2, 2])"
      by (simp add: make_get_request_def retry_call_first retry_call_second retry_call_third
          retry_if_exception_type_iff)
    have ks: "\<exists>e. request_body (server k) = Inl e \<and> e \<noteq> OtherException"
      if "1 \<le> k \<and> k < 3" for k
    proof -
      from that have "k = 1 \<or> k = 2" by arith
      with e show ?thesis by auto
    qed
    show ?thesis unfolding res using e rep ks by simp
  next
    case f
    have ks: "\<exists>e. request_body (server k) = Inl e \<and> e \<noteq> OtherException"
      if "1 \<le> k \<and> k < 3" for k
    proof -
      from that have "k = 1 \<or> k = 2" by arith
      with f show ?thesis by auto
    qed
    show ?thesis
    proof (cases "e3 = OtherException")
      case True
      with f have res: "make_get_request server = (Inl (Reraised OtherException), 3, [2, 2])"
        by (simp add: make_get_request_def retry_call_first retry_call_second retry_call_third
            retry_if_exception_type_iff)
      show ?thesis unfolding res using f True rep ks by simp
    next
      case False
      with f have res: "make_get_request server = (Inl (RetryError e3), 3, [2, 2])"
        by (simp add: make_get_request_def retry_call_first retry_call_second retry_call_third
            retry_if_exception_type_iff)
      show ?thesis unfolding res using f False rep ks by simp
    qed
  qed
qed

section \<open>Fan-out lemmas\<close>

lemma api_call_ext:
  "addressed c k req \<Longrightarrow> \<exists>ext. snd (api_call tbot sent req) = sent @ ext \<and> ext \<noteq> [] \<and> (\<forall>r\<in>set ext. addressed c k r)"
  by (simp add: api_call_def)

lemma attempt_send_ext:
  "\<exists>ext. snd (attempt_send tbot sent c m k imgs) = sent @ ext \<and> ext \<noteq> [] \<and> (\<forall>r\<in>set ext. addressed c k r)"
  by (auto simp: attempt_send_def api_call_def addressed_def Let_def split: prod.splits)

lemma send_to_admin_ext:
  "\<exists>ext. snd (send_to_admin tbot sent c m k imgs) = sent @ ext \<and> ext \<noteq> [] \<and> (\<forall>r\<in>set ext. addressed c k r)"
proof -
  obtain r s1 where a: "attempt_send tbot sent c m k imgs = (r, s1)" by (cases "attempt_send tbot sent c m k imgs")
  from attempt_send_ext [of tbot sent c m k imgs] a obtain ext where
    e: "s1 = sent @ ext" "ext \<noteq> []" "\<forall>r\<in>set ext. addressed c k r" by auto
  show ?thesis
  proof (cases r)
    case (TelegramRetryAfter n)
    have "snd (send_to_admin tbot sent c m k imgs) = sent @ (ext @ [SendMessage c m k])"
      using a e TelegramRetryAfter by (simp add: send_to_admin_def api_call_def)
    moreover have "\<forall>r\<in>set (ext @ [SendMessage c m k]). addressed c k r"
      using e by (auto simp: addressed_def)
    ultimately show ?thesis by blast
  qed (use a e in \<open>auto simp: send_to_admin_def\<close>)
qed

lemma send_to_admins_groups:
  "\<exists>groups. snd (send_to_admins tbot sent admins m k imgs) = sent @ concat groups \<and>
     list_all2 (\<lambda>g a. g \<noteq> [] \<and> (\<forall>r\<in>set g. addressed (snd a) k r)) groups admins"
proof (induction admins arbitrary: sent)
  case Nil
  show ?case by (rule exI [of _ "[]"]) simp
next
  case (Cons a admins)
  obtain u c where a: "a = (u, c)" by (cases a)
  obtain r s1 where s: "send_to_admin tbot sent c m k imgs = (r, s1)" by (cases "send_to_admin tbot sent c m k imgs")
  from send_to_admin_ext [of tbot sent c m k imgs] s obtain ext where
    e: "s1 = sent @ ext" "ext \<noteq> []" "\<forall>r\<in>set ext. addressed c k r" by auto
  from Cons.IH [of s1] obtain groups where
    g: "snd (send_to_admins tbot s1 admins m k imgs) = s1 @ concat groups"
       "list_all2 (\<lambda>g a. g \<noteq> [] \<and> (\<forall>r\<in>set g. addressed (snd a) k r)) groups admins" by blast
  have "snd (send_to_admins tbot sent (a # admins) m k imgs) = sent @ concat (ext # groups)"
    using a s e g(1) by (simp add: split_beta)
  moreover have "list_all2 (\<lambda>g a. g \<noteq> [] \<and> (\<forall>r\<in>set g. addressed (snd a) k r)) (ext # groups) (a # admins)"
    using a e g(2) by simp
  ultimately show ?case by blast
qed

lemma send_to_admins_length:
  "length (fst (send_to_admins tbot sent admins m k imgs)) = length admins"
  by (induction admins arbitrary: sent) (auto simp: split_beta)

lemma save_processed_order_recorded:
  "\<not> db_locked d \<Longrightarrow>
   is_order_processed oid (snd (save_processed_order now oid number st dtype tsum cname wcode d)) = Inr True"
  by (simp add: save_processed_order_def is_order_processed_def)

lemma process_order_recorded:
  assumes "\<not> db_locked (ledger w)" "render order = Returned (m, imgs)"
  shows "fst (process_order mon render tbot now order w) = None"
    and "is_order_processed (ord_id order) (ledger (snd (process_order mon render tbot now order w))) = Inr True"
    and "outbox (snd (process_order mon render tbot now order w)) =
         snd (send_notification_to_warehouse_admins mon tbot (outbox w) order m (ord_id order) imgs)"
  using assms
  by (simp_all add: process_order_def Let_def split_beta save_processed_order_recorded)

section \<open>Detection lemmas\<close>

lemma filter_map_same_key:
  "(\<And>r. order_id (g r) = order_id r) \<Longrightarrow>
   filter (\<lambda>r. order_id r \<noteq> i) (map (\<lambda>r. if order_id r = i then g r else r) xs) =
   filter (\<lambda>r. order_id r \<noteq> i) xs"
  by (induction xs) auto

lemma find_map_same_key:
  "(\<And>r. order_id (g r) = order_id r) \<Longrightarrow>
   find (\<lambda>r. order_id r = i) (map (\<lambda>r. if order_id r = i then g r else r) xs) =
   map_option g (find (\<lambda>r. order_id r = i) xs)"
  by (induction xs) auto

lemma find_Some_filter: "find P xs = Some x \<Longrightarrow> filter P xs \<noteq> []"
  by (induction xs) (auto split: if_splits)

lemma mark_then_reset:
  assumes l: "\<not> db_locked d" and u: "distinct (map order_id (processed_orders d))"
    and p: "p \<in> set (processed_orders d)" and w: "was_in_no_product p"
  shows "reset_order_for_renotification (order_id p)
           (snd (mark_order_returned_from_no_product now (order_id p) d)) =
         (True, d\<lparr>processed_orders := filter (\<lambda>r. order_id r \<noteq> order_id p) (processed_orders d)\<rparr>)"
proof -
  let ?i = "order_id p"
  let ?g = "\<lambda>r. r\<lparr>returned_from_no_product := True, updated_at := now\<rparr>"
  let ?rows = "map (\<lambda>r. if order_id r = ?i then ?g r else r) (processed_orders d)"
  have f: "find (\<lambda>r. order_id r = ?i) (processed_orders d) = Some p"
    using u p by (rule find_unique_key)
  have f': "find (\<lambda>r. order_id r = ?i) ?rows = Some (?g p)"
    using find_map_same_key [of ?g ?i "processed_orders d"] f by simp
  have k: "filter (\<lambda>r. order_id r \<noteq> ?i) ?rows = filter (\<lambda>r. order_id r \<noteq> ?i) (processed_orders d)"
    by (rule filter_map_same_key) simp
  have pos: "filter (\<lambda>r. order_id r = ?i) ?rows \<noteq> []"
    using f' by (rule find_Some_filter)
  then have pos': "0 < length (filter (\<lambda>r. order_id r = ?i) ?rows)"
    by (rule iffD2 [OF length_greater_0_conv])
  show ?thesis
    using l w pos' by (simp add: mark_order_returned_from_no_product_def
        reset_order_for_renotification_def f' k Let_def)
qed

lemma rows_of_map_unique:
  assumes "distinct (map order_id xs)" "p \<in> set xs" "\<And>r. order_id (g r) = order_id r"
  shows "filter (\<lambda>r. order_id r = order_id p)
           (map (\<lambda>r. if order_id r = order_id p then g r else r) xs) = [g p]"
  using assms(1,2)
proof (induction xs)
  case Nil
  then show ?case by simp
next
  case (Cons x xs)
  show ?case
  proof (cases "x = p")
    case True
    have "order_id p \<notin> order_id ` set xs" using Cons.prems(1) True by simp
    then have "\<forall>q\<in>set xs. order_id q \<noteq> order_id p" by (metis imageI)
    then have "filter (\<lambda>r. order_id r = order_id p)
           (map (\<lambda>r. if order_id r = order_id p then g r else r) xs) = []"
      by (simp add: filter_empty_conv)
    then show ?thesis using True assms(3) by simp
  next
    case False
    then have mem: "p \<in> set xs" using Cons.prems(2) by simp
    then have "order_id p \<in> order_id ` set xs" by (rule imageI)
    moreover have "order_id x \<notin> order_id ` set xs" using Cons.prems(1) by simp
    ultimately have ne: "order_id x \<noteq> order_id p" by metis
    have "filter (\<lambda>r. order_id r = order_id p)
           (map (\<lambda>r. if order_id r = order_id p then g r else r) xs) = [g p]"
      using Cons.prems(1) mem by (intro Cons.IH) simp_all
    then show ?thesis using ne by simp
  qed
qed

lemma rows_of_mark_unique:
  assumes l: "\<not> db_locked d" and u: "distinct (map order_id (processed_orders d))"
    and p: "p \<in> set (processed_orders d)"
  shows "rows_of (order_id p) (snd (mark_order_returned_from_no_product now (order_id p) d)) =
         [p\<lparr>returned_from_no_product := True, updated_at := now\<rparr>]"
proof -
  have "filter (\<lambda>r. order_id r = order_id p)
           (map (\<lambda>r. if order_id r = order_id p
                      then r\<lparr>returned_from_no_product := True, updated_at := now\<rparr> else r)
              (processed_orders d)) =
        [p\<lparr>returned_from_no_product := True, updated_at := now\<rparr>]"
    using u p by (rule rows_of_map_unique) simp
  then show ?thesis
    using l by (simp add: rows_of_def mark_order_returned_from_no_product_def del: filter_map)
qed

lemma returned_loop_skip:
  "\<not> pending_return mon fetch po \<Longrightarrow>
   returned_loop (STATUS_RETURNED mon) fetch now (po # rest) acc calls d =
   returned_loop (STATUS_RETURNED mon) fetch now rest acc calls d"
  by (auto simp: pending_return_def split: outcome.splits option.splits)

lemma returned_loop_take:
  assumes "pending_return mon fetch po" "\<not> db_locked d"
    "distinct (map order_id (processed_orders d))" "po \<in> set (processed_orders d)"
  shows "\<exists>cur T. returned_order mon fetch po = Some cur \<and>
   map call_effect T = round_trip now po \<and>
   returned_loop (STATUS_RETURNED mon) fetch now (po # rest) acc calls d =
   returned_loop (STATUS_RETURNED mon) fetch now rest (acc @ [cur]) (calls @ T)
     (d\<lparr>processed_orders := filter (\<lambda>r. order_id r \<noteq> order_id po) (processed_orders d),
        error_log := error_log d @ [(''order_returned_from_no_product'', Some (order_id po))]\<rparr>)"
proof -
  let ?i = "order_id po"
  from assms(1) obtain cur where c: "fetch ?i = Returned (Some cur)"
    "ord_status cur = Some (STATUS_RETURNED mon)" "was_in_no_product po" "\<not> returned_from_no_product po"
    by (auto simp: pending_return_def split: outcome.splits option.splits)
  have ro: "returned_order mon fetch po = Some cur"
    using assms(1) c by (simp add: returned_order_def)
  obtain ok1 d1 where m: "mark_order_returned_from_no_product now ?i d = (ok1, d1)"
    by (cases "mark_order_returned_from_no_product now ?i d")
  let ?d2 = "d\<lparr>processed_orders := filter (\<lambda>r. order_id r \<noteq> ?i) (processed_orders d)\<rparr>"
  let ?d3 = "d\<lparr>processed_orders := filter (\<lambda>r. order_id r \<noteq> ?i) (processed_orders d),
        error_log := error_log d @ [(''order_returned_from_no_product'', Some ?i)]\<rparr>"
  let ?T = "[(CallMarkReturned ?i, d1), (CallReset ?i, ?d2),
             (CallLogError ''order_returned_from_no_product'' (Some ?i), ?d3)]"
  have r: "reset_order_for_renotification ?i d1 = (True, ?d2)"
    using mark_then_reset [OF assms(2) assms(3) assms(4) c(3), of now] m by simp
  have e1: "rows_of ?i d1 = [po\<lparr>returned_from_no_product := True, updated_at := now\<rparr>]"
    using rows_of_mark_unique [OF assms(2) assms(3) assms(4), of now] m by simp
  have e2: "rows_of ?i ?d2 = []" "rows_of ?i ?d3 = []"
    by (simp_all add: rows_of_def filter_empty_conv)
  have eff: "map call_effect ?T = round_trip now po"
    by (simp add: call_effect_def round_trip_def e1 e2)
  have step: "returned_loop (STATUS_RETURNED mon) fetch now (po # rest) acc calls d =
      returned_loop (STATUS_RETURNED mon) fetch now rest (acc @ [cur]) (calls @ ?T) ?d3"
    using c m r assms(2) by (simp add: log_error_def)
  from ro eff step show ?thesis by blast
qed

lemma returned_loop_result:
  assumes "\<not> db_locked d" "distinct (map order_id (processed_orders d))"
    "distinct (map order_id ps)" "set ps \<subseteq> set (processed_orders d)"
  shows "\<exists>T. returned_loop (STATUS_RETURNED mon) fetch now ps acc calls d =
     (Returned (acc @ List.map_filter (returned_order mon fetch) ps),
      calls @ T,
      d\<lparr>processed_orders :=
           filter (\<lambda>r. order_id r \<notin> order_id ` set (filter (pending_return mon fetch) ps))
             (processed_orders d),
        error_log := error_log d @
           map (\<lambda>r. (''order_returned_from_no_product'', Some (order_id r)))
             (filter (pending_return mon fetch) ps)\<rparr>) \<and>
     map call_effect T = concat (map (round_trip now) (filter (pending_return mon fetch) ps))"
  using assms
proof (induction ps arbitrary: acc calls d)
  case Nil
  show ?case by (rule exI [of _ "[]"]) (simp add: List.map_filter_simps)
next
  case (Cons p ps)
  show ?case
  proof (cases "pending_return mon fetch p")
    case False
    then have ro: "returned_order mon fetch p = None"
      by (simp add: returned_order_def)
    have skip: "returned_loop (STATUS_RETURNED mon) fetch now (p # ps) acc calls d =
        returned_loop (STATUS_RETURNED mon) fetch now ps acc calls d"
      using False by (rule returned_loop_skip)
    have "\<exists>T. returned_loop (STATUS_RETURNED mon) fetch now ps acc calls d =
     (Returned (acc @ List.map_filter (returned_order mon fetch) ps),
      calls @ T,
      d\<lparr>processed_orders :=
           filter (\<lambda>r. order_id r \<notin> order_id ` set (filter (pending_return mon fetch) ps))
             (processed_orders d),
        error_log := error_log d @
           map (\<lambda>r. (''order_returned_from_no_product'', Some (order_id r)))
             (filter (pending_return mon fetch) ps)\<rparr>) \<and>
     map call_effect T = concat (map (round_trip now) (filter (pending_return mon fetch) ps))"
      using Cons.prems by (intro Cons.IH) auto
    then obtain T where T: "returned_loop (STATUS_RETURNED mon) fetch now ps acc calls d =
     (Returned (acc @ List.map_filter (returned_order mon fetch) ps),
      calls @ T,
      d\<lparr>processed_orders :=
           filter (\<lambda>r. order_id r \<notin> order_id ` set (filter (pending_return mon fetch) ps))
             (processed_orders d),
        error_log := error_log d @
           map (\<lambda>r. (''order_returned_from_no_product'', Some (order_id r)))
             (filter (pending_return mon fetch) ps)\<rparr>)"
     "map call_effect T = concat (map (round_trip now) (filter (pending_return mon fetch) ps))"
      by blast
    have res: "returned_loop (STATUS_RETURNED mon) fetch now (p # ps) acc calls d =
     (Returned (acc @ List.map_filter (returned_order mon fetch) (p # ps)),
      calls @ T,
      d\<lparr>processed_orders :=
           filter (\<lambda>r. order_id r \<notin> order_id ` set (filter (pending_return mon fetch) (p # ps)))
             (processed_orders d),
        error_log := error_log d @
           map (\<lambda>r. (''order_returned_from_no_product'', Some (order_id r)))
             (filter (pending_return mon fetch) (p # ps))\<rparr>)"
      unfolding skip T(1) using False ro by (simp add: List.map_filter_simps)
    have eff: "map call_effect T =
        concat (map (round_trip now) (filter (pending_return mon fetch) (p # ps)))"
      using False T(2) by simp
    from res eff show ?thesis by blast
  next
    case True
    have mem: "p \<in> set (processed_orders d)" using Cons.prems(4) by simp
    let ?d' = "d\<lparr>processed_orders := filter (\<lambda>r. order_id r \<noteq> order_id p) (processed_orders d),
        error_log := error_log d @ [(''order_returned_from_no_product'', Some (order_id p))]\<rparr>"
    from returned_loop_take [OF True Cons.prems(1) Cons.prems(2) mem, of now ps acc calls]
    obtain cur T1 where cur: "returned_order mon fetch p = Some cur"
      "map call_effect T1 = round_trip now p"
      "returned_loop (STATUS_RETURNED mon) fetch now (p # ps) acc calls d =
       returned_loop (STATUS_RETURNED mon) fetch now ps (acc @ [cur]) (calls @ T1) ?d'"
      by blast
    have sub: "set ps \<subseteq> set (processed_orders ?d')"
    proof
      fix q assume q: "q \<in> set ps"
      then have "order_id q \<in> order_id ` set ps" by (rule imageI)
      moreover have "order_id p \<notin> order_id ` set ps" using Cons.prems(3) by simp
      ultimately have "order_id q \<noteq> order_id p" by metis
      moreover have "q \<in> set (processed_orders d)" using q Cons.prems(4) by auto
      ultimately show "q \<in> set (processed_orders ?d')" by simp
    qed
    have "\<exists>T. returned_loop (STATUS_RETURNED mon) fetch now ps (acc @ [cur]) (calls @ T1) ?d' =
      (Returned ((acc @ [cur]) @ List.map_filter (returned_order mon fetch) ps),
       (calls @ T1) @ T,
       ?d'\<lparr>processed_orders :=
           filter (\<lambda>r. order_id r \<notin> order_id ` set (filter (pending_return mon fetch) ps))
             (processed_orders ?d'),
        error_log := error_log ?d' @
           map (\<lambda>r. (''order_returned_from_no_product'', Some (order_id r)))
             (filter (pending_return mon fetch) ps)\<rparr>) \<and>
      map call_effect T = concat (map (round_trip now) (filter (pending_return mon fetch) ps))"
      using Cons.prems sub by (intro Cons.IH) (auto simp: distinct_map_filter)
    then obtain T2 where ih: "returned_loop (STATUS_RETURNED mon) fetch now ps (acc @ [cur]) (calls @ T1) ?d' =
      (Returned ((acc @ [cur]) @ List.map_filter (returned_order mon fetch) ps),
       (calls @ T1) @ T2,
       ?d'\<lparr>processed_orders :=
           filter (\<lambda>r. order_id r \<notin> order_id ` set (filter (pending_return mon fetch) ps))
             (processed_orders ?d'),
        error_log := error_log ?d' @
           map (\<lambda>r. (''order_returned_from_no_product'', Some (order_id r)))
             (filter (pending_return mon fetch) ps)\<rparr>)"
      "map call_effect T2 = concat (map (round_trip now) (filter (pending_return mon fetch) ps))"
      by blast
    have fl: "filter (\<lambda>r. order_id r \<notin> order_id ` set (filter (pending_return mon fetch) ps))
             (filter (\<lambda>r. order_id r \<noteq> order_id p) (processed_orders d)) =
          filter (\<lambda>r. order_id r \<notin> order_id ` set (filter (pending_return mon fetch) (p # ps)))
             (processed_orders d)"
      using True by (auto intro: filter_cong)
    have eff: "map call_effect (T1 @ T2) =
        concat (map (round_trip now) (filter (pending_return mon fetch) (p # ps)))"
      using True cur(2) ih(2) by simp
    have res: "returned_loop (STATUS_RETURNED mon) fetch now (p # ps) acc calls d =
     (Returned (acc @ List.map_filter (returned_order mon fetch) (p # ps)),
      calls @ (T1 @ T2),
      d\<lparr>processed_orders :=
           filter (\<lambda>r. order_id r \<notin> order_id ` set (filter (pending_return mon fetch) (p # ps)))
             (processed_orders d),
        error_log := error_log d @
           map (\<lambda>r. (''order_returned_from_no_product'', Some (order_id r)))
             (filter (pending_return mon fetch) (p # ps))\<rparr>)"
      unfolding cur(3) ih(1) using True cur(1) fl by (simp add: List.map_filter_simps)
    from res eff show ?thesis by blast
  qed
qed

lemma snapshot_props:
  assumes l: "\<not> db_locked d" and u: "unique_order_ids d"
  shows "set (get_all_processed_orders d) = set (processed_orders d)"
    and "distinct (map order_id (get_all_processed_orders d))"
    and "inj_on order_id (set (processed_orders d))"
    and "(get_all_processed_orders d = []) = (processed_orders d = [])"
    and "length (filter P (get_all_processed_orders d)) = length (filter P (processed_orders d))"
proof -
  have d: "distinct (map order_id (processed_orders d))"
    using u by (simp add: unique_order_ids_def)
  show s: "set (get_all_processed_orders d) = set (processed_orders d)"
    using l by (simp add: get_all_processed_orders_def)
  show i: "inj_on order_id (set (processed_orders d))"
    using d by (simp add: distinct_map)
  have "distinct (get_all_processed_orders d)"
    using l d by (simp add: get_all_processed_orders_def distinct_map)
  then show "distinct (map order_id (get_all_processed_orders d))"
    using i s by (simp add: distinct_map)
  show "(get_all_processed_orders d = []) = (processed_orders d = [])"
    using s by (metis set_empty)
  show "length (filter P (get_all_processed_orders d)) = length (filter P (processed_orders d))"
    using l by (simp add: get_all_processed_orders_def filter_sort)
qed

lemma check_returned_result:
  assumes l: "\<not> db_locked d" and u: "unique_order_ids d"
  shows "\<exists>calls. check_orders_returned_from_no_product mon fetch now d =
      (List.map_filter (returned_order mon fetch) (get_all_processed_orders d),
       calls,
       d\<lparr>processed_orders := filter (\<lambda>r. \<not> pending_return mon fetch r) (processed_orders d),
         error_log := error_log d @
           map (\<lambda>r. (''order_returned_from_no_product'', Some (order_id r)))
             (filter (pending_return mon fetch) (get_all_processed_orders d))\<rparr>) \<and>
      map call_effect calls =
        concat (map (round_trip now)
          (filter (pending_return mon fetch) (get_all_processed_orders d)))"
proof (cases "processed_orders d = []")
  case True
  then have "get_all_processed_orders d = []"
    using snapshot_props(4) [OF l u] by simp
  then show ?thesis using True
    by (simp add: check_orders_returned_from_no_product_def List.map_filter_simps)
next
  case False
  let ?ps = "get_all_processed_orders d"
  have ne: "?ps \<noteq> []" using False snapshot_props(4) [OF l u] by simp
  have d: "distinct (map order_id (processed_orders d))"
    using u by (simp add: unique_order_ids_def)
  have sub: "set ?ps \<subseteq> set (processed_orders d)"
    using snapshot_props(1) [OF l u] by simp
  from returned_loop_result [OF l d snapshot_props(2) [OF l u] sub, of mon fetch now "[]" "[]"]
  obtain T where loop: "returned_loop (STATUS_RETURNED mon) fetch now ?ps [] [] d =
     (Returned ([] @ List.map_filter (returned_order mon fetch) ?ps),
      [] @ T,
      d\<lparr>processed_orders :=
           filter (\<lambda>r. order_id r \<notin> order_id ` set (filter (pending_return mon fetch) ?ps))
             (processed_orders d),
        error_log := error_log d @
           map (\<lambda>r. (''order_returned_from_no_product'', Some (order_id r)))
             (filter (pending_return mon fetch) ?ps)\<rparr>)"
    and eff: "map call_effect T = concat (map (round_trip now) (filter (pending_return mon fetch) ?ps))"
    by blast
  have fl: "filter (\<lambda>r. order_id r \<notin> order_id ` set (filter (pending_return mon fetch) ?ps))
             (processed_orders d) =
          filter (\<lambda>r. \<not> pending_return mon fetch r) (processed_orders d)"
  proof (rule filter_cong [OF refl])
    fix r assume r: "r \<in> set (processed_orders d)"
    show "(order_id r \<notin> order_id ` set (filter (pending_return mon fetch) ?ps)) =
        (\<not> pending_return mon fetch r)"
    proof
      assume a: "order_id r \<notin> order_id ` set (filter (pending_return mon fetch) ?ps)"
      show "\<not> pending_return mon fetch r"
      proof
        assume "pending_return mon fetch r"
        with r have "r \<in> set (filter (pending_return mon fetch) ?ps)"
          using snapshot_props(1) [OF l u] by simp
        with a show False by blast
      qed
    next
      assume a: "\<not> pending_return mon fetch r"
      show "order_id r \<notin> order_id ` set (filter (pending_return mon fetch) ?ps)"
      proof
        assume "order_id r \<in> order_id ` set (filter (pending_return mon fetch) ?ps)"
        then obtain q where q: "q \<in> set ?ps" "pending_return mon fetch q" "order_id r = order_id q"
          by auto
        then have "q \<in> set (processed_orders d)" using sub by blast
        with q(3) r have "r = q"
          using snapshot_props(3) [OF l u] by (simp add: inj_on_def)
        with q(2) a show False by simp
      qed
    qed
  qed
  have step1: "check_orders_returned_from_no_product mon fetch now d =
      (case returned_loop (STATUS_RETURNED mon) fetch now ?ps [] [] d of
         (Raised, calls, d') \<Rightarrow> ([], calls, d')
       | (Returned returned_orders, calls, d') \<Rightarrow> (returned_orders, calls, d'))"
    using ne by (simp add: check_orders_returned_from_no_product_def Let_def)
  have step2: "(case returned_loop (STATUS_RETURNED mon) fetch now ?ps [] [] d of
         (Raised, calls, d') \<Rightarrow> ([], calls, d')
       | (Returned returned_orders, calls, d') \<Rightarrow> (returned_orders, calls, d')) =
      (List.map_filter (returned_order mon fetch) ?ps,
       T,
       d\<lparr>processed_orders :=
           filter (\<lambda>r. order_id r \<notin> order_id ` set (filter (pending_return mon fetch) ?ps))
             (processed_orders d),
         error_log := error_log d @
           map (\<lambda>r. (''order_returned_from_no_product'', Some (order_id r)))
             (filter (pending_return mon fetch) ?ps)\<rparr>)"
    by (simp only: loop prod.case outcome.case append_Nil)
  have "check_orders_returned_from_no_product mon fetch now d =
      (List.map_filter (returned_order mon fetch) ?ps,
       T,
       d\<lparr>processed_orders := filter (\<lambda>r. \<not> pending_return mon fetch r) (processed_orders d),
         error_log := error_log d @
           map (\<lambda>r. (''order_returned_from_no_product'', Some (order_id r)))
             (filter (pending_return mon fetch) ?ps)\<rparr>)"
    by (simp only: step1 step2 fl)
  with eff show ?thesis by blast
qed

lemma map_filter_mem: "x \<in> set xs \<Longrightarrow> f x = Some y \<Longrightarrow> y \<in> set (List.map_filter f xs)"
  by (induction xs) (auto split: option.splits)

lemma length_filter_map_filter:
  "length (filter Q (List.map_filter f xs)) =
   length (filter (\<lambda>x. case f x of None \<Rightarrow> False | Some y \<Rightarrow> Q y) xs)"
  by (induction xs) (auto simp: List.map_filter_simps split: option.splits)

lemma filter_unique_key:
  assumes "distinct (map order_id xs)" "r \<in> set xs"
  shows "filter (\<lambda>q. order_id q = order_id r) xs = [r]"
  using assms
proof (induction xs)
  case Nil
  then show ?case by simp
next
  case (Cons x xs)
  show ?case
  proof (cases "x = r")
    case True
    have "order_id r \<notin> order_id ` set xs" using Cons.prems(1) True by simp
    then have "\<forall>q\<in>set xs. order_id q \<noteq> order_id r" by (metis imageI)
    then have "filter (\<lambda>q. order_id q = order_id r) xs = []"
      by (simp add: filter_empty_conv)
    then show ?thesis using True by simp
  next
    case False
    then have mem: "r \<in> set xs" using Cons.prems(2) by simp
    then have "order_id r \<in> order_id ` set xs" by (rule imageI)
    moreover have "order_id x \<notin> order_id ` set xs" using Cons.prems(1) by simp
    ultimately have ne: "order_id x \<noteq> order_id r" by metis
    have "filter (\<lambda>q. order_id q = order_id r) xs = [r]"
      using Cons.prems(1) mem by (intro Cons.IH) simp_all
    then show ?thesis using ne by simp
  qed
qed

section \<open>Lemmas about the calls of a round trip\<close>

lemma returned_order_None: "(returned_order mon fetch r = None) = (\<not> pending_return mon fetch r)"
  by (auto simp: returned_order_def pending_return_def split: outcome.splits option.splits)

lemma returned_order_fetch:
  "returned_order mon fetch r = Some cur \<Longrightarrow> fetch (order_id r) = Returned (Some cur)"
  by (auto simp: returned_order_def split: if_splits outcome.splits option.splits)

lemma filter_round_trip:
  "filter (\<lambda>c. call_order (fst c) = Some i) (round_trip now q) =
   (if order_id q = i then round_trip now q else [])"
  by (simp add: round_trip_def)

lemma filter_round_trips:
  "filter (\<lambda>c. call_order (fst c) = Some i) (concat (map (round_trip now) ys)) =
   concat (map (round_trip now) (filter (\<lambda>q. order_id q = i) ys))"
  by (induction ys) (simp_all add: filter_round_trip)

lemma filter_pending_unique:
  assumes "distinct (map order_id xs)" "r \<in> set xs"
  shows "filter (\<lambda>q. order_id q = order_id r) (filter P xs) = (if P r then [r] else [])"
proof -
  have "filter (\<lambda>q. order_id q = order_id r) (filter P xs) =
      filter P (filter (\<lambda>q. order_id q = order_id r) xs)"
    by (simp add: conj_commute)
  also have "\<dots> = filter P [r]"
    using assms by (simp only: filter_unique_key)
  finally show ?thesis by simp
qed

section \<open>Ledger claims\<close>

text \<open>
  C2, as the spec states it: a call of \<^verbatim>\<open>save_processed_order\<close> for an order whose row
  has \<^verbatim>\<open>was_in_no_product\<close> set leaves the flag as it was. It does not: the row that
  replaces the old one carries the constant 0 in both flag columns. Before the call the
  flag of order 7 reads true, after it false.
\<close>

theorem save_processed_order_clears_flags_counterexample:
  "was_order_in_no_product 7 (db_of [flagged_row 7]) \<and>
   \<not> was_order_in_no_product 7
       (snd (save_processed_order 5 7 ''A-1'' ''target'' None None None None
          (db_of [flagged_row 7])))"
  by (simp add: was_order_in_no_product_def save_processed_order_def db_of_def
      flagged_row_def plain_row_def)

text \<open>
  C2, amended: with the database available, \<^verbatim>\<open>save_processed_order\<close> succeeds and leaves
  exactly one row for the order id, with \<^verbatim>\<open>was_in_no_product\<close>,
  \<^verbatim>\<open>returned_from_no_product\<close> (and \<^verbatim>\<open>bouquet_ready_notified\<close>) false, whether the id
  was new or already had a row, flagged or not; the rows of every other order are
  unchanged.
\<close>

theorem save_processed_order_zeroes_flags:
  assumes "\<not> db_locked db"
  shows "fst (save_processed_order now oid number st dtype tsum cname wcode db) \<and>
     filter (\<lambda>r. order_id r = oid)
        (processed_orders (snd (save_processed_order now oid number st dtype tsum cname wcode db))) =
       [\<lparr>order_id = oid, order_number = number, status = st, total_sum = tsum,
            customer_name = cname, warehouse_code = wcode, delivery_type = dtype,
            was_in_no_product = False, returned_from_no_product = False,
            bouquet_ready_notified = False,
            created_at = now, updated_at = now, notified_at = now\<rparr>] \<and>
     filter (\<lambda>r. order_id r \<noteq> oid)
        (processed_orders (snd (save_processed_order now oid number st dtype tsum cname wcode db))) =
       filter (\<lambda>r. order_id r \<noteq> oid) (processed_orders db) \<and>
     \<not> was_order_in_no_product oid
         (snd (save_processed_order now oid number st dtype tsum cname wcode db)) \<and>
     \<not> is_order_returned_from_no_product oid
         (snd (save_processed_order now oid number st dtype tsum cname wcode db))"
proof -
  have a: "filter (\<lambda>r. order_id r = oid) (filter (\<lambda>r. order_id r \<noteq> oid) xs) = []"
    for xs :: "processed_order list"
    by (induction xs) auto
  have b: "find (\<lambda>r. order_id r = oid) (filter (\<lambda>r. order_id r \<noteq> oid) xs @ [y]) =
      (if order_id y = oid then Some y else None)"
    for xs :: "processed_order list" and y
    by (induction xs) auto
  show ?thesis using assms
    by (simp add: save_processed_order_def a b was_order_in_no_product_def
        is_order_returned_from_no_product_def)
qed

theorem save_processed_order_zeroes_flags_witness:
  "\<not> db_locked (db_of [flagged_row 7, plain_row 8]) \<and>
   fst (save_processed_order 5 7 ''A-1'' ''target'' None None None None
          (db_of [flagged_row 7, plain_row 8])) \<and>
   \<not> was_order_in_no_product 7
       (snd (save_processed_order 5 7 ''A-1'' ''target'' None None None None
          (db_of [flagged_row 7, plain_row 8]))) \<and>
   filter (\<lambda>r. order_id r \<noteq> 7)
       (processed_orders (snd (save_processed_order 5 7 ''A-1'' ''target'' None None None None
          (db_of [flagged_row 7, plain_row 8])))) = [plain_row 8]"
proof -
  have h: "\<not> db_locked (db_of [flagged_row 7, plain_row 8])"
    by (simp add: db_of_def)
  have f: "filter (\<lambda>r. order_id r \<noteq> 7) (processed_orders (db_of [flagged_row 7, plain_row 8]))
      = [plain_row 8]"
    by (simp add: db_of_def flagged_row_def plain_row_def)
  show ?thesis
    using h f save_processed_order_zeroes_flags [OF h, where now = 5 and oid = 7
        and number = "''A-1''" and st = "''target''" and dtype = None and tsum = None
        and cname = None and wcode = None]
    by simp
qed

text \<open>
  C4: \<^verbatim>\<open>reset_order_for_renotification\<close> deletes the order's row and returns true exactly
  when the database is available and the stored row exists with \<^verbatim>\<open>was_in_no_product\<close>
  set; in every other case (no row, flag not set, database error) it returns false and
  the database is unchanged. Order ids are unique in the table, as its schema says.
\<close>

theorem reset_order_for_renotification_guard:
  assumes "unique_order_ids db"
  shows "reset_order_for_renotification oid db =
     (if \<not> db_locked db \<and>
         (\<exists>r\<in>set (processed_orders db). order_id r = oid \<and> was_in_no_product r)
      then (True, db\<lparr>processed_orders :=
                       filter (\<lambda>r. order_id r \<noteq> oid) (processed_orders db)\<rparr>)
      else (False, db))"
proof (cases "find (\<lambda>r. order_id r = oid) (processed_orders db)")
  case None
  then have "filter (\<lambda>r. order_id r = oid) (processed_orders db) = []"
    by (rule find_None_filter)
  then have "\<forall>r\<in>set (processed_orders db). order_id r \<noteq> oid"
    by (simp add: filter_empty_conv)
  with None show ?thesis by (auto simp: reset_order_for_renotification_def)
next
  case (Some r)
  then have r: "r \<in> set (processed_orders db)" "order_id r = oid"
    using find_Some_mem by fastforce+
  have uniq: "r' = r" if mem: "r' \<in> set (processed_orders db)" and key: "order_id r' = oid"
    for r'
  proof -
    have d: "distinct (map order_id (processed_orders db))"
      using assms by (simp add: unique_order_ids_def)
    have "find (\<lambda>x. order_id x = order_id r') (processed_orders db) = Some r'"
      using d mem by (rule find_unique_key)
    then have "Some r' = Some r" using Some key by simp
    then show ?thesis by simp
  qed
  have pos: "filter (\<lambda>r. order_id r = oid) (processed_orders db) \<noteq> []"
    using r by (auto simp: filter_empty_conv)
  have ex: "(\<exists>x\<in>set (processed_orders db). order_id x = oid \<and> was_in_no_product x) =
      was_in_no_product r"
    using r uniq by blast
  show ?thesis
    by (simp add: reset_order_for_renotification_def Let_def Some pos ex)
qed

theorem reset_order_for_renotification_guard_witness:
  "unique_order_ids (db_of [flagged_row 7, plain_row 8]) \<and>
   reset_order_for_renotification 7 (db_of [flagged_row 7, plain_row 8]) =
     (True, db_of [plain_row 8]) \<and>
   reset_order_for_renotification 8 (db_of [flagged_row 7, plain_row 8]) =
     (False, db_of [flagged_row 7, plain_row 8]) \<and>
   reset_order_for_renotification 9 (db_of [flagged_row 7, plain_row 8]) =
     (False, db_of [flagged_row 7, plain_row 8])"
proof -
  have h: "unique_order_ids (db_of [flagged_row 7, plain_row 8])"
    by (simp add: unique_order_ids_def db_of_def flagged_row_def plain_row_def)
  show ?thesis
    using h reset_order_for_renotification_guard [OF h, of 7]
      reset_order_for_renotification_guard [OF h, of 8]
      reset_order_for_renotification_guard [OF h, of 9]
    by (simp add: db_of_def flagged_row_def plain_row_def)
qed

text \<open>
  C10: for an order id with no row (database available), \<^verbatim>\<open>mark_order_in_no_product\<close>
  and \<^verbatim>\<open>mark_order_returned_from_no_product\<close> return true and change nothing, while
  \<^verbatim>\<open>mark_bouquet_ready_notified\<close> returns false; after the two markers returned true the
  flags of that order still read false.
\<close>

theorem no_product_markers_ignore_rowcount:
  assumes "\<not> db_locked db" and "\<forall>r\<in>set (processed_orders db). order_id r \<noteq> oid"
  shows "mark_order_in_no_product now oid db = (True, db) \<and>
         mark_order_returned_from_no_product now oid db = (True, db) \<and>
         mark_bouquet_ready_notified now oid db = (False, db) \<and>
         \<not> was_order_in_no_product oid (snd (mark_order_in_no_product now oid db)) \<and>
         \<not> is_order_returned_from_no_product oid
             (snd (mark_order_returned_from_no_product now oid db))"
proof -
  have m: "map (\<lambda>r. if order_id r = oid then g r else r) (processed_orders db) =
      processed_orders db" for g
    using assms(2) by (intro map_no_match) simp
  have f: "filter (\<lambda>r. order_id r = oid) (processed_orders db) = []"
    using assms(2) by (intro filter_no_match) simp
  have n: "find (\<lambda>r. order_id r = oid) (processed_orders db) = None"
    using assms(2) by (simp add: find_None_iff)
  show ?thesis using assms(1)
    by (simp add: mark_order_in_no_product_def mark_order_returned_from_no_product_def
        mark_bouquet_ready_notified_def m f n was_order_in_no_product_def
        is_order_returned_from_no_product_def)
qed

theorem no_product_markers_ignore_rowcount_witness:
  "\<not> db_locked (db_of [plain_row 8]) \<and>
   9 \<notin> set (map order_id (processed_orders (db_of [plain_row 8]))) \<and>
   mark_order_in_no_product 3 9 (db_of [plain_row 8]) = (True, db_of [plain_row 8]) \<and>
   mark_order_returned_from_no_product 3 9 (db_of [plain_row 8]) = (True, db_of [plain_row 8]) \<and>
   mark_bouquet_ready_notified 3 9 (db_of [plain_row 8]) = (False, db_of [plain_row 8])"
proof -
  have h1: "\<not> db_locked (db_of [plain_row 8])"
    by (simp add: db_of_def)
  have h2: "\<forall>r\<in>set (processed_orders (db_of [plain_row 8])). order_id r \<noteq> 9"
    by (simp add: db_of_def plain_row_def)
  have h3: "9 \<notin> set (map order_id (processed_orders (db_of [plain_row 8])))"
    by (simp add: db_of_def plain_row_def)
  show ?thesis
    using h1 h3 no_product_markers_ignore_rowcount [OF h1 h2, of 3]
    by simp
qed

section \<open>Rate limiter claims\<close>

text \<open>
  C6: with the server reachable and no command failing, a check returns
  \<open>is_limited = (c > limit)\<close> and \<open>remaining = max 0 (limit - c)\<close> for the post-increment
  count \<open>c\<close>, and gives the key a new expiry (\<open>window\<close> seconds from now) only when
  \<open>c = 1\<close>, keeping the old one otherwise. For a fresh key, limit 5 and window 60, six
  checks inside the window opened by the first return remaining 4, 3, 2, 1, 0 unlimited
  and then limited with remaining 0; once the window is over the key is gone and the next
  check is unlimited again.
\<close>

theorem fixed_window_rate_limit:
  assumes c: "connected rl"
  shows "check_rate_limit rl no_faults now i a limit window store =
      (let key = get_key rl i a; c = post_increment now store key in
        ((c > limit, max 0 (limit - c)),
          store(key \<mapsto> (c, if c = 1 then Some (now + window)
                 else (case redis_lookup now store key of None \<Rightarrow> None | Some (v, e) \<Rightarrow> e))))) \<and>
    (redis_lookup t1 store (get_key rl i a) = None \<and>
     t1 \<le> t2 \<and> t2 \<le> t3 \<and> t3 \<le> t4 \<and> t4 \<le> t5 \<and> t5 \<le> t6 \<and> t6 < t1 + 60 \<and> t1 + 60 \<le> t7 \<longrightarrow>
       fst (check_series rl [t1, t2, t3, t4, t5, t6] i a 5 60 store) =
         [(False, 4), (False, 3), (False, 2), (False, 1), (False, 0), (True, 0)] \<and>
       redis_lookup t7 (snd (check_series rl [t1, t2, t3, t4, t5, t6] i a 5 60 store))
         (get_key rl i a) = None \<and>
       fst (check_rate_limit rl no_faults t7 i a 5 60
             (snd (check_series rl [t1, t2, t3, t4, t5, t6] i a 5 60 store))) = (False, 4))"
proof (intro conjI impI)
  show "check_rate_limit rl no_faults now i a limit window store =
      (let key = get_key rl i a; c = post_increment now store key in
        ((c > limit, max 0 (limit - c)),
          store(key \<mapsto> (c, if c = 1 then Some (now + window)
                 else (case redis_lookup now store key of None \<Rightarrow> None | Some (v, e) \<Rightarrow> e)))))"
    using c by (rule check_rate_limit_general)
next
  assume h: "redis_lookup t1 store (get_key rl i a) = None \<and>
     t1 \<le> t2 \<and> t2 \<le> t3 \<and> t3 \<le> t4 \<and> t4 \<le> t5 \<and> t5 \<le> t6 \<and> t6 < t1 + 60 \<and> t1 + 60 \<le> t7"
  then have ser: "check_series rl [t1, t2, t3, t4, t5, t6] i a 5 60 store =
      ([(False, 4), (False, 3), (False, 2), (False, 1), (False, 0), (True, 0)],
        store(get_key rl i a \<mapsto> (6, Some (t1 + 60))))"
    using c by (intro check_series_window) simp_all
  show "fst (check_series rl [t1, t2, t3, t4, t5, t6] i a 5 60 store) =
         [(False, 4), (False, 3), (False, 2), (False, 1), (False, 0), (True, 0)]"
    by (simp only: ser fst_conv)
  show gone: "redis_lookup t7 (snd (check_series rl [t1, t2, t3, t4, t5, t6] i a 5 60 store))
         (get_key rl i a) = None"
    unfolding ser using h by (simp add: redis_lookup_def)
  show "fst (check_rate_limit rl no_faults t7 i a 5 60
             (snd (check_series rl [t1, t2, t3, t4, t5, t6] i a 5 60 store))) = (False, 4)"
    using check_rate_limit_fresh [OF c gone, of 5 60] by simp
qed

theorem fixed_window_rate_limit_witness:
  "connected limiter_up \<and>
   redis_lookup 0 Map.empty (get_key limiter_up ''42'' ''confirm_order'') = None \<and>
   fst (check_series limiter_up [0, 1, 2, 3, 59, 59] ''42'' ''confirm_order'' 5 60 Map.empty) =
     [(False, 4), (False, 3), (False, 2), (False, 1), (False, 0), (True, 0)] \<and>
   fst (check_rate_limit limiter_up no_faults 60 ''42'' ''confirm_order'' 5 60
     (snd (check_series limiter_up [0, 1, 2, 3, 59, 59] ''42'' ''confirm_order'' 5 60 Map.empty)))
     = (False, 4)"
proof -
  have h: "connected limiter_up"
    by (simp add: limiter_up_def)
  have f: "redis_lookup 0 Map.empty (get_key limiter_up ''42'' ''confirm_order'') = None"
    by (simp add: redis_lookup_def)
  have t: "redis_lookup 0 Map.empty (get_key limiter_up ''42'' ''confirm_order'') = None \<and>
     (0::int) \<le> 1 \<and> (1::int) \<le> 2 \<and> (2::int) \<le> 3 \<and> (3::int) \<le> 59 \<and> (59::int) \<le> 59 \<and>
     (59::int) < 0 + 60 \<and> (0::int) + 60 \<le> 60"
    using f by simp
  have res: "fst (check_series limiter_up [0, 1, 2, 3, 59, 59] ''42'' ''confirm_order'' 5 60 Map.empty) =
       [(False, 4), (False, 3), (False, 2), (False, 1), (False, 0), (True, 0)] \<and>
     redis_lookup 60
       (snd (check_series limiter_up [0, 1, 2, 3, 59, 59] ''42'' ''confirm_order'' 5 60 Map.empty))
       (get_key limiter_up ''42'' ''confirm_order'') = None \<and>
     fst (check_rate_limit limiter_up no_faults 60 ''42'' ''confirm_order'' 5 60
       (snd (check_series limiter_up [0, 1, 2, 3, 59, 59] ''42'' ''confirm_order'' 5 60 Map.empty)))
       = (False, 4)"
    by (rule fixed_window_rate_limit [OF h, THEN conjunct2, THEN mp, OF t])
  show ?thesis
    using h f res by blast
qed

text \<open>
  C7: the \<^verbatim>\<open>try\<close> block of a check is left by an exception exactly when \<^verbatim>\<open>incr\<close> raises,
  or \<^verbatim>\<open>expire\<close> raises on a first request, or \<^verbatim>\<open>ttl\<close> raises for a caller over the
  limit. Whenever the client handle is absent or the block is left by an exception,
  \<^verbatim>\<open>check_rate_limit\<close> returns \<open>is_limited = False\<close> and \<open>remaining = limit\<close>,
  for every identifier, action, limit, window and store.
\<close>

theorem rate_limiter_fails_open:
  "isl (fst (check_rate_limit_try rl faults now i a limit window store)) =
     (incr_fault faults \<noteq> None \<or>
      post_increment now store (get_key rl i a) = 1 \<and> expire_fault faults \<noteq> None \<or>
      post_increment now store (get_key rl i a) \<noteq> 1 \<and>
        post_increment now store (get_key rl i a) > limit \<and> ttl_fault faults \<noteq> None \<or>
      post_increment now store (get_key rl i a) = 1 \<and> 1 > limit \<and> ttl_fault faults \<noteq> None) \<and>
   (\<not> connected rl \<or> isl (fst (check_rate_limit_try rl faults now i a limit window store))
      \<longrightarrow> fst (check_rate_limit rl faults now i a limit window store) = (False, limit))"
proof (intro conjI impI)
  show "isl (fst (check_rate_limit_try rl faults now i a limit window store)) =
     (incr_fault faults \<noteq> None \<or>
      post_increment now store (get_key rl i a) = 1 \<and> expire_fault faults \<noteq> None \<or>
      post_increment now store (get_key rl i a) \<noteq> 1 \<and>
        post_increment now store (get_key rl i a) > limit \<and> ttl_fault faults \<noteq> None \<or>
      post_increment now store (get_key rl i a) = 1 \<and> 1 > limit \<and> ttl_fault faults \<noteq> None)"
    by (auto simp: check_rate_limit_try_def post_increment_def Let_def
        split: prod.splits option.splits)
next
  assume "\<not> connected rl \<or> isl (fst (check_rate_limit_try rl faults now i a limit window store))"
  then show "fst (check_rate_limit rl faults now i a limit window store) = (False, limit)"
    by (auto simp: check_rate_limit_def isl_def split: prod.splits sum.splits)
qed

theorem rate_limiter_fails_open_witness:
  "\<not> connected limiter_down \<and>
   fst (check_rate_limit limiter_down no_faults 7 ''42'' ''confirm_order'' 5 60
     [get_key limiter_down ''42'' ''confirm_order'' \<mapsto> (9, Some 30)]) = (False, 5) \<and>
   isl (fst (check_rate_limit_try limiter_up (no_faults\<lparr>ttl_fault := Some RedisError\<rparr>) 7
     ''42'' ''confirm_order'' 5 60
     [get_key limiter_up ''42'' ''confirm_order'' \<mapsto> (9, Some 30)])) \<and>
   fst (check_rate_limit limiter_up (no_faults\<lparr>ttl_fault := Some RedisError\<rparr>) 7
     ''42'' ''confirm_order'' 5 60
     [get_key limiter_up ''42'' ''confirm_order'' \<mapsto> (9, Some 30)]) = (False, 5)"
proof -
  have h1: "\<not> connected limiter_down"
    by (simp add: limiter_down_def)
  have h2: "isl (fst (check_rate_limit_try limiter_up (no_faults\<lparr>ttl_fault := Some RedisError\<rparr>) 7
     ''42'' ''confirm_order'' 5 60
     [get_key limiter_up ''42'' ''confirm_order'' \<mapsto> (9, Some 30)]))"
    by (simp add: check_rate_limit_try_def no_faults_def redis_incr_def redis_lookup_def Let_def)
  show ?thesis
    using h1 h2
      rate_limiter_fails_open [of limiter_down no_faults 7 "''42''" "''confirm_order''" 5 60
        "[get_key limiter_down ''42'' ''confirm_order'' \<mapsto> (9, Some 30)]"]
      rate_limiter_fails_open [of limiter_up "no_faults\<lparr>ttl_fault := Some RedisError\<rparr>" 7
        "''42''" "''confirm_order''" 5 60
        "[get_key limiter_up ''42'' ''confirm_order'' \<mapsto> (9, Some 30)]"]
    by simp
qed

section \<open>Payload parsing claim\<close>

text \<open>
  C8, as the spec states it: the id is returned exactly for the action, a colon and a
  positive integer, and every other input is rejected. The function accepts more:
  whitespace around the number (it is stripped), a plus sign, and underscores between
  digits. And it rejects a payload of the stated form when the action itself contains a
  colon.
\<close>

theorem parse_callback_data_not_strict_counterexample:
  "parse_callback_data ''confirm_order: 12345 '' ''confirm_order'' = Some 12345 \<and>
   spec_parse_callback_data ''confirm_order: 12345 '' ''confirm_order'' = None \<and>
   parse_callback_data ''confirm_order:+5'' ''confirm_order'' = Some 5 \<and>
   spec_parse_callback_data ''confirm_order:+5'' ''confirm_order'' = None \<and>
   parse_callback_data ''confirm_order:1_0'' ''confirm_order'' = Some 10 \<and>
   spec_parse_callback_data ''confirm_order:1_0'' ''confirm_order'' = None \<and>
   parse_callback_data ''a:b:5'' ''a:b'' = None \<and>
   spec_parse_callback_data ''a:b:5'' ''a:b'' = Some 5"
  by (simp add: parse_callback_data_def parse_callback_data_try_def startswith_def strip_def
      is_space_def py_int_def is_digit_def digit_val_def spec_parse_callback_data_def
      decimal_value_def)

text \<open>
  C8, amended: \<^verbatim>\<open>parse_callback_data\<close> always returns (an id or \<^verbatim>\<open>None\<close>) and never
  raises. It returns the id \<open>n\<close> exactly when the action contains no colon and the input
  is the action, a colon, and a text without colon that, once the whitespace around it is
  stripped, \<^verbatim>\<open>int()\<close> reads as \<open>n\<close> (an optional sign, decimal digits, single underscores
  between digits), with \<open>n\<close> positive. Every payload of the strict form of the spec (action
  without colon, a colon, decimal digits of a positive number) is accepted with its id.
  The statement is for payloads of at most 4300 characters, below the length at which
  newer versions of the language refuse to convert a string to an integer; the platform's
  payloads have at most 64 bytes.
\<close>

theorem parse_callback_data_format:
  assumes "length callback_data \<le> 4300"
  shows "(parse_callback_data callback_data action = Some n \<longleftrightarrow>
     (\<exists>body. callback_data = action @ CHR '':'' # body \<and>
        CHR '':'' \<notin> set action \<and> CHR '':'' \<notin> set body \<and>
        py_int (strip body) = Inr n \<and> 0 < n)) \<and>
    (spec_parse_callback_data callback_data action = Some n \<and> CHR '':'' \<notin> set action
       \<longrightarrow> parse_callback_data callback_data action = Some n)"
  using parse_callback_data_Some [of callback_data action n]
    spec_parse_accepted [of callback_data action n]
  by blast

theorem parse_callback_data_format_witness:
  "length ''confirm_order:12345'' \<le> 4300 \<and>
   spec_parse_callback_data ''confirm_order:12345'' ''confirm_order'' = Some 12345 \<and>
   CHR '':'' \<notin> set ''confirm_order'' \<and>
   parse_callback_data ''confirm_order:12345'' ''confirm_order'' = Some 12345 \<and>
   parse_callback_data ''confirm_order'' ''confirm_order'' = None \<and>
   parse_callback_data ''confirm_order:abc'' ''confirm_order'' = None \<and>
   parse_callback_data ''confirm_order:-5'' ''confirm_order'' = None \<and>
   parse_callback_data ''confirm_order:0'' ''confirm_order'' = None \<and>
   parse_callback_data ''confirm_order:5:6'' ''confirm_order'' = None \<and>
   parse_callback_data ''confirm_order::'' ''confirm_order'' = None \<and>
   parse_callback_data [] ''confirm_order'' = None"
proof -
  have h: "length ''confirm_order:12345'' \<le> 4300"
    by simp
  have s: "spec_parse_callback_data ''confirm_order:12345'' ''confirm_order'' = Some 12345 \<and>
      CHR '':'' \<notin> set ''confirm_order''"
    by (simp add: spec_parse_callback_data_def is_digit_def digit_val_def decimal_value_def)
  have p: "parse_callback_data ''confirm_order:12345'' ''confirm_order'' = Some 12345"
    by (rule parse_callback_data_format [OF h, THEN conjunct2, THEN mp, OF s])
  have r: "parse_callback_data ''confirm_order'' ''confirm_order'' = None \<and>
   parse_callback_data ''confirm_order:abc'' ''confirm_order'' = None \<and>
   parse_callback_data ''confirm_order:-5'' ''confirm_order'' = None \<and>
   parse_callback_data ''confirm_order:0'' ''confirm_order'' = None \<and>
   parse_callback_data ''confirm_order:5:6'' ''confirm_order'' = None \<and>
   parse_callback_data ''confirm_order::'' ''confirm_order'' = None \<and>
   parse_callback_data [] ''confirm_order'' = None"
    by (simp add: parse_callback_data_def parse_callback_data_try_def startswith_def strip_def
      is_space_def py_int_def is_digit_def digit_val_def)
  show ?thesis
    using h s p r by blast
qed

section \<open>Retry claim\<close>

text \<open>
  C5, as the spec states it: a response with a 4xx or 5xx status is never retried and is
  surfaced at once. In the code \<^verbatim>\<open>raise_for_status\<close> turns such a response into
  \<^verbatim>\<open>HTTPError\<close>, a \<^verbatim>\<open>RequestException\<close>, and the decorator retries on every
  \<^verbatim>\<open>RequestException\<close>: a server that answers 400 once and 200 afterwards gets a
  second attempt, after a wait of 2 seconds, and the caller gets the 200.
\<close>

theorem http_error_is_retried_counterexample:
  "request_body (Responds 400) = Inl (HTTPError 400) \<and>
   retry_if_exception_type (HTTPError 400) \<and>
   make_get_request (\<lambda>k. if k = 1 then Responds 400 else Responds 200) = (Inr 200, 2, [2]) \<and>
   make_post_request (\<lambda>k. if k = 1 then Responds 400 else Responds 200) = (Inr 200, 2, [2])"
  by (simp add: make_get_request_def make_post_request_def retry_call_first retry_call_second
      request_body_def raise_for_status_def retry_if_exception_type_def)

text \<open>
  C5, amended: a call through \<^verbatim>\<open>_make_get_request\<close> or \<^verbatim>\<open>_make_post_request\<close> makes
  between one and three attempts and sleeps 2 seconds between two attempts (the
  exponential wait clamped to the range from 2 to 10). Every attempt that was followed by
  another one raised a \<^verbatim>\<open>RequestException\<close>, which includes the \<^verbatim>\<open>HTTPError\<close> of a 4xx
  or 5xx status as well as timeouts and connection errors. The call ends with the first
  response that has no error status, or with the first exception that is not a
  \<^verbatim>\<open>RequestException\<close> (raised as it is), or after the third failed attempt
  (\<^verbatim>\<open>RetryError\<close>).
\<close>

theorem retry_policy:
  "(case make_get_request server of (res, n, sleeps) \<Rightarrow>
     1 \<le> n \<and> n \<le> 3 \<and> sleeps = replicate (n - 1) 2 \<and>
     (\<forall>k. 1 \<le> k \<and> k < n \<longrightarrow>
        (\<exists>e. request_body (server k) = Inl e \<and> isinstance_RequestException e)) \<and>
     (case res of
        Inr r \<Rightarrow> request_body (server n) = Inr r
      | Inl (Reraised e) \<Rightarrow> request_body (server n) = Inl e \<and> \<not> isinstance_RequestException e
      | Inl (RetryError e) \<Rightarrow>
          n = 3 \<and> request_body (server n) = Inl e \<and> isinstance_RequestException e)) \<and>
   make_post_request server = make_get_request server \<and>
   request_body (Responds status_code) =
     (if 400 \<le> status_code \<and> status_code < 600 then Inl (HTTPError status_code)
      else Inr status_code) \<and>
   isinstance_RequestException (HTTPError status_code)"
proof (intro conjI)
  show "case make_get_request server of (res, n, sleeps) \<Rightarrow>
     1 \<le> n \<and> n \<le> 3 \<and> sleeps = replicate (n - 1) 2 \<and>
     (\<forall>k. 1 \<le> k \<and> k < n \<longrightarrow>
        (\<exists>e. request_body (server k) = Inl e \<and> isinstance_RequestException e)) \<and>
     (case res of
        Inr r \<Rightarrow> request_body (server n) = Inr r
      | Inl (Reraised e) \<Rightarrow> request_body (server n) = Inl e \<and> \<not> isinstance_RequestException e
      | Inl (RetryError e) \<Rightarrow>
          n = 3 \<and> request_body (server n) = Inl e \<and> isinstance_RequestException e)"
    unfolding isinstance_RequestException_iff not_not
    by (rule make_get_request_cases)
  show "make_post_request server = make_get_request server"
    by (simp add: make_post_request_def make_get_request_def)
  show "request_body (Responds status_code) =
     (if 400 \<le> status_code \<and> status_code < 600 then Inl (HTTPError status_code)
      else Inr status_code)"
    by (simp add: request_body_def raise_for_status_def)
  show "isinstance_RequestException (HTTPError status_code)"
    by simp
qed

theorem retry_policy_witness:
  "make_get_request (\<lambda>k. if k = 1 then Responds 500 else if k = 2 then Fails Timeout
      else Responds 200) = (Inr 200, 3, [2, 2]) \<and>
   (\<exists>e. request_body (if (2::nat) = 1 then Responds 500 else if (2::nat) = 2 then Fails Timeout
      else Responds 200) = Inl e \<and> isinstance_RequestException e)"
proof -
  let ?srv = "\<lambda>k::nat. if k = 1 then Responds 500 else if k = 2 then Fails Timeout
      else Responds 200"
  have res: "make_get_request ?srv = (Inr 200, 3, [2, 2])"
    by (simp add: make_get_request_def retry_call_first retry_call_second retry_call_third
        request_body_def raise_for_status_def retry_if_exception_type_def)
  have every: "\<forall>k. 1 \<le> k \<and> k < 3 \<longrightarrow>
        (\<exists>e. request_body (?srv k) = Inl e \<and> isinstance_RequestException e)"
    using retry_policy [of ?srv, THEN conjunct1] unfolding res prod.case by blast
  have "\<exists>e. request_body (?srv 2) = Inl e \<and> isinstance_RequestException e"
    using every [rule_format, of 2] by simp
  with res show ?thesis by simp
qed

section \<open>Fan-out claim\<close>

text \<open>
  C9: whatever the platform answers to each request (recipient blocked, network error,
  flood control, anything else), the fan-out for an order with a warehouse makes at least
  one request to every recipient of that warehouse, recipient after recipient in the order
  of the admin table, and reports one result per recipient. And with the database
  available, an order whose message could be rendered is in the processed-orders table
  after the body of the loop, whatever happened to the sends.
\<close>

theorem fan_out_isolates_failures:
  "(shipmentStore order = Some code \<and> code \<noteq> [] \<longrightarrow>
      (\<exists>groups.
          snd (send_notification_to_warehouse_admins mon tbot sent order m k imgs) =
            sent @ concat groups \<and>
          list_all2 (\<lambda>g a. g \<noteq> [] \<and> (\<forall>r\<in>set g. addressed (snd a) k r)) groups
            (get_admins_for_warehouse mon code)) \<and>
      length (fst (send_notification_to_warehouse_admins mon tbot sent order m k imgs)) =
        length (get_admins_for_warehouse mon code)) \<and>
   (\<not> db_locked (ledger w) \<and> render order = Returned (m, imgs) \<longrightarrow>
      fst (process_order mon render tbot now order w) = None \<and>
      is_order_processed (ord_id order)
        (ledger (snd (process_order mon render tbot now order w))) = Inr True \<and>
      outbox (snd (process_order mon render tbot now order w)) =
        snd (send_notification_to_warehouse_admins mon tbot (outbox w) order m (ord_id order) imgs))"
proof (intro conjI impI)
  assume h: "shipmentStore order = Some code \<and> code \<noteq> []"
  let ?admins = "get_admins_for_warehouse mon code"
  show "\<exists>groups.
          snd (send_notification_to_warehouse_admins mon tbot sent order m k imgs) =
            sent @ concat groups \<and>
          list_all2 (\<lambda>g a. g \<noteq> [] \<and> (\<forall>r\<in>set g. addressed (snd a) k r)) groups ?admins"
  proof (cases "?admins = []")
    case True
    with h have "snd (send_notification_to_warehouse_admins mon tbot sent order m k imgs) =
        sent @ concat []"
      by (simp add: send_notification_to_warehouse_admins_def)
    with True show ?thesis by (intro exI [of _ "[]"]) simp
  next
    case False
    with h have "send_notification_to_warehouse_admins mon tbot sent order m k imgs =
        send_to_admins tbot sent ?admins m k imgs"
      by (simp add: send_notification_to_warehouse_admins_def)
    then show ?thesis
      using send_to_admins_groups [of tbot sent ?admins m k imgs] by simp
  qed
  show "length (fst (send_notification_to_warehouse_admins mon tbot sent order m k imgs)) =
      length ?admins"
    using h by (simp add: send_notification_to_warehouse_admins_def send_to_admins_length Let_def)
next
  assume h: "\<not> db_locked (ledger w) \<and> render order = Returned (m, imgs)"
  then have l: "\<not> db_locked (ledger w)" and r: "render order = Returned (m, imgs)"
    by simp_all
  show "fst (process_order mon render tbot now order w) = None"
    using l r by (rule process_order_recorded)
  show "is_order_processed (ord_id order)
        (ledger (snd (process_order mon render tbot now order w))) = Inr True"
    using l r by (rule process_order_recorded)
  show "outbox (snd (process_order mon render tbot now order w)) =
        snd (send_notification_to_warehouse_admins mon tbot (outbox w) order m (ord_id order) imgs)"
    using l r by (rule process_order_recorded)
qed

theorem fan_out_isolates_failures_witness:
  "\<not> db_locked (ledger empty_world) \<and>
   plain_text (order_at 7 ''target'') = Returned (''text'', []) \<and>
   send_notification_to_warehouse_admins shop second_blocked [] (order_at 7 ''target'')
       ''text'' 7 [] =
     ([Delivered, TelegramForbiddenError, Delivered],
      [SendMessage ''101'' ''text'' 7, SendMessage ''102'' ''text'' 7,
       SendMessage ''103'' ''text'' 7]) \<and>
   is_order_processed 7
     (ledger (snd (process_order shop plain_text second_blocked 9 (order_at 7 ''target'')
        empty_world))) = Inr True"
proof -
  have h: "\<not> db_locked (ledger empty_world) \<and>
      plain_text (order_at 7 ''target'') = Returned (''text'', [])"
    by (simp add: empty_world_def db_of_def plain_text_def)
  have s: "send_notification_to_warehouse_admins shop second_blocked [] (order_at 7 ''target'')
       ''text'' 7 [] =
     ([Delivered, TelegramForbiddenError, Delivered],
      [SendMessage ''101'' ''text'' 7, SendMessage ''102'' ''text'' 7,
       SendMessage ''103'' ''text'' 7])"
    by (simp add: send_notification_to_warehouse_admins_def get_admins_for_warehouse_def
        shop_def order_at_def send_to_admin_def attempt_send_def api_call_def
        second_blocked_def)
  have "is_order_processed (ord_id (order_at 7 ''target''))
     (ledger (snd (process_order shop plain_text second_blocked 9 (order_at 7 ''target'')
        empty_world))) = Inr True"
    using fan_out_isolates_failures [where w = empty_world and render = plain_text
        and order = "order_at 7 ''target''" and m = "''text''" and imgs = "[]" and mon = shop
        and tbot = second_blocked and now = 9, THEN conjunct2, THEN mp, OF h]
    by blast
  then have p: "is_order_processed 7
     (ledger (snd (process_order shop plain_text second_blocked 9 (order_at 7 ''target'')
        empty_world))) = Inr True"
    by (simp add: order_at_def)
  show ?thesis
    using h s p by blast
qed

section \<open>No-product round trip claim\<close>

text \<open>
  C3: with the database available and order ids unique, one run of
  \<^verbatim>\<open>_check_orders_returned_from_no_product\<close> does the following, a pending return being
  a row with \<^verbatim>\<open>was_in_no_product\<close> set, \<^verbatim>\<open>returned_from_no_product\<close> not set, and a
  freshly fetched order in the returned status.

  The list it yields holds the fetched orders of the pending returns, one for each, in the
  order of the snapshot (newest first), and nothing else; so it has as many entries as
  there are pending returns. The calls it makes on the database are, for each pending
  return in that order, the three of one round trip and no others: the marker, after
  which the order's row is the old row with \<^verbatim>\<open>returned_from_no_product\<close> set; the
  reset, after which the order has no row; the log entry. The database it leaves has lost
  exactly the rows of the pending returns and gained one log entry for each.

  For every row of the table: if it is a pending return, the run makes these three calls
  for its order once and no other call for it, the order is no longer processed
  afterwards, and its fetched order is in the yielded list; if it is not (never in
  no-product, already returned, order not fetched, or another live status), the run makes
  no call for its order, the row is still in the table as it was, the order is still
  processed, and the row yields nothing. When the backend answers each lookup with the
  order of the id asked for, the yielded list holds exactly one order with the id of a
  pending return and none with the id of any other row.
\<close>

theorem no_product_round_trip:
  assumes l: "\<not> db_locked d" and u: "unique_order_ids d"
  shows "case check_orders_returned_from_no_product mon fetch now d of
     (yielded, calls, d') \<Rightarrow>
       yielded = List.map_filter (returned_order mon fetch) (get_all_processed_orders d) \<and>
       length yielded = length (filter (pending_return mon fetch) (processed_orders d)) \<and>
       map call_effect calls =
         concat (map (round_trip now)
           (filter (pending_return mon fetch) (get_all_processed_orders d))) \<and>
       d' = d\<lparr>processed_orders :=
                 filter (\<lambda>r. \<not> pending_return mon fetch r) (processed_orders d),
               error_log := error_log d @
                 map (\<lambda>r. (''order_returned_from_no_product'', Some (order_id r)))
                   (filter (pending_return mon fetch) (get_all_processed_orders d))\<rparr> \<and>
       (\<forall>r\<in>set (processed_orders d).
          filter (\<lambda>c. call_order (fst c) = Some (order_id r)) (map call_effect calls) =
            (if pending_return mon fetch r then round_trip now r else []) \<and>
          is_order_processed (order_id r) d' = Inr (\<not> pending_return mon fetch r) \<and>
          (if pending_return mon fetch r
           then \<exists>cur. fetch (order_id r) = Returned (Some cur) \<and> cur \<in> set yielded
           else r \<in> set (processed_orders d') \<and> returned_order mon fetch r = None)) \<and>
       ((\<forall>q\<in>set (processed_orders d). \<forall>cur.
            fetch (order_id q) = Returned (Some cur) \<longrightarrow> ord_id cur = order_id q) \<longrightarrow>
        (\<forall>r\<in>set (processed_orders d).
           length (filter (\<lambda>order. ord_id order = order_id r) yielded) =
             (if pending_return mon fetch r then 1 else 0)))"
proof -
  let ?ps = "get_all_processed_orders d"
  let ?P = "pending_return mon fetch"
  let ?Y = "List.map_filter (returned_order mon fetch) ?ps"
  let ?D = "d\<lparr>processed_orders := filter (\<lambda>r. \<not> ?P r) (processed_orders d),
               error_log := error_log d @
                 map (\<lambda>r. (''order_returned_from_no_product'', Some (order_id r)))
                   (filter ?P ?ps)\<rparr>"
  from check_returned_result [OF l u, of mon fetch now]
  obtain calls where eq: "check_orders_returned_from_no_product mon fetch now d = (?Y, calls, ?D)"
    and eff: "map call_effect calls = concat (map (round_trip now) (filter ?P ?ps))"
    by blast
  have dist: "distinct (map order_id (processed_orders d))"
    using u by (simp add: unique_order_ids_def)
  have set_ps: "set ?ps = set (processed_orders d)"
    using snapshot_props(1) [OF l u] .
  have dist_ps: "distinct (map order_id ?ps)"
    using snapshot_props(2) [OF l u] .
  have pend: "(case returned_order mon fetch x of None \<Rightarrow> False | Some y \<Rightarrow> True) = ?P x" for x
    using returned_order_None [of mon fetch x] by (cases "returned_order mon fetch x") auto
  have len: "length ?Y = length (filter ?P (processed_orders d))"
  proof -
    have "length ?Y = length (filter (\<lambda>order. True) ?Y)" by simp
    also have "\<dots> = length (filter ?P ?ps)"
      by (simp only: length_filter_map_filter pend)
    also have "\<dots> = length (filter ?P (processed_orders d))"
      using snapshot_props(5) [OF l u] .
    finally show ?thesis .
  qed
  have row: "filter (\<lambda>c. call_order (fst c) = Some (order_id r)) (map call_effect calls) =
            (if ?P r then round_trip now r else []) \<and>
          is_order_processed (order_id r) ?D = Inr (\<not> ?P r) \<and>
          (if ?P r
           then \<exists>cur. fetch (order_id r) = Returned (Some cur) \<and> cur \<in> set ?Y
           else r \<in> set (processed_orders ?D) \<and> returned_order mon fetch r = None)"
    if r: "r \<in> set (processed_orders d)" for r
  proof (intro conjI)
    have rp: "r \<in> set ?ps" using r set_ps by simp
    have "filter (\<lambda>c. call_order (fst c) = Some (order_id r)) (map call_effect calls) =
        concat (map (round_trip now) (filter (\<lambda>q. order_id q = order_id r) (filter ?P ?ps)))"
      by (simp only: eff filter_round_trips)
    also have "\<dots> = concat (map (round_trip now) (if ?P r then [r] else []))"
      by (simp only: filter_pending_unique [OF dist_ps rp])
    finally show "filter (\<lambda>c. call_order (fst c) = Some (order_id r)) (map call_effect calls) =
        (if ?P r then round_trip now r else [])"
      by simp
    have one: "filter (\<lambda>q. order_id q = order_id r) (filter (\<lambda>q. \<not> ?P q) (processed_orders d)) =
        (if \<not> ?P r then [r] else [])"
      using dist r by (rule filter_pending_unique)
    have "is_order_processed (order_id r) ?D =
        Inr (0 < length (filter (\<lambda>q. order_id q = order_id r)
                 (filter (\<lambda>q. \<not> ?P q) (processed_orders d))))"
      using l by (simp add: is_order_processed_def del: filter_filter)
    also have "\<dots> = Inr (0 < length (if \<not> ?P r then [r] else []))"
      by (simp only: one)
    finally show "is_order_processed (order_id r) ?D = Inr (\<not> ?P r)"
      by simp
    show "if ?P r
       then \<exists>cur. fetch (order_id r) = Returned (Some cur) \<and> cur \<in> set ?Y
       else r \<in> set (processed_orders ?D) \<and> returned_order mon fetch r = None"
    proof (cases "?P r")
      case True
      then obtain cur where ro: "returned_order mon fetch r = Some cur"
        using returned_order_None [of mon fetch r] by auto
      have "cur \<in> set ?Y" using rp ro by (rule map_filter_mem)
      moreover have "fetch (order_id r) = Returned (Some cur)"
        using ro by (rule returned_order_fetch)
      ultimately show ?thesis using True by auto
    next
      case False
      then show ?thesis using r by (simp add: returned_order_None)
    qed
  qed
  have cnt: "length (filter (\<lambda>order. ord_id order = order_id r) ?Y) = (if ?P r then 1 else 0)"
    if honest: "\<forall>q\<in>set (processed_orders d). \<forall>cur.
        fetch (order_id q) = Returned (Some cur) \<longrightarrow> ord_id cur = order_id q"
      and r: "r \<in> set (processed_orders d)" for r
  proof -
    have rp: "r \<in> set ?ps" using r set_ps by simp
    have same: "(case returned_order mon fetch x of None \<Rightarrow> False
                 | Some y \<Rightarrow> ord_id y = order_id r) = (?P x \<and> order_id x = order_id r)"
      if x: "x \<in> set ?ps" for x
    proof (cases "returned_order mon fetch x")
      case None
      then show ?thesis using returned_order_None [of mon fetch x] by simp
    next
      case (Some y)
      then have "fetch (order_id x) = Returned (Some y)" by (rule returned_order_fetch)
      then have "ord_id y = order_id x" using honest x set_ps by blast
      moreover have "?P x" using Some returned_order_None [of mon fetch x] by simp
      ultimately show ?thesis using Some by simp
    qed
    have "length (filter (\<lambda>order. ord_id order = order_id r) ?Y) =
        length (filter (\<lambda>x. case returned_order mon fetch x of None \<Rightarrow> False
                 | Some y \<Rightarrow> ord_id y = order_id r) ?ps)"
      by (rule length_filter_map_filter)
    also have "\<dots> = length (filter (\<lambda>x. ?P x \<and> order_id x = order_id r) ?ps)"
      using same by (simp cong: filter_cong)
    also have "\<dots> = length (filter (\<lambda>q. order_id q = order_id r) (filter ?P ?ps))"
      by (simp add: conj_commute)
    also have "\<dots> = length (if ?P r then [r] else [])"
      by (simp only: filter_pending_unique [OF dist_ps rp])
    finally show ?thesis by simp
  qed
  show ?thesis
    unfolding eq prod.case
    using len eff row cnt by blast
qed

theorem no_product_round_trip_witness:
  "\<not> db_locked three_rows \<and> unique_order_ids three_rows \<and>
   fst (check_orders_returned_from_no_product shop returned_now 9 three_rows) =
     [order_at 7 ''returned'', order_at 9 ''returned''] \<and>
   map call_effect (fst (snd (check_orders_returned_from_no_product shop returned_now 9 three_rows))) =
     round_trip 9 (flagged_row 7) @ round_trip 9 (flagged_row 9) \<and>
   snd (snd (check_orders_returned_from_no_product shop returned_now 9 three_rows)) =
     \<lparr>processed_orders = [plain_row 8],
      error_log = [(''order_returned_from_no_product'', Some 7),
                   (''order_returned_from_no_product'', Some 9)],
      db_locked = False\<rparr> \<and>
   filter (\<lambda>c. call_order (fst c) = Some 7)
     (map call_effect (fst (snd (check_orders_returned_from_no_product shop returned_now 9 three_rows)))) =
     [(CallMarkReturned 7, [(flagged_row 7)\<lparr>returned_from_no_product := True, updated_at := 9\<rparr>]),
      (CallReset 7, []),
      (CallLogError ''order_returned_from_no_product'' (Some 7), [])] \<and>
   filter (\<lambda>c. call_order (fst c) = Some 8)
     (map call_effect (fst (snd (check_orders_returned_from_no_product shop returned_now 9 three_rows)))) =
     [] \<and>
   is_order_processed 7
     (snd (snd (check_orders_returned_from_no_product shop returned_now 9 three_rows))) = Inr False \<and>
   is_order_processed 8
     (snd (snd (check_orders_returned_from_no_product shop returned_now 9 three_rows))) = Inr True \<and>
   length (filter (\<lambda>order. ord_id order = 7)
     (fst (check_orders_returned_from_no_product shop returned_now 9 three_rows))) = 1 \<and>
   length (filter (\<lambda>order. ord_id order = 8)
     (fst (check_orders_returned_from_no_product shop returned_now 9 three_rows))) = 0"
proof -
  let ?d = "three_rows"
  let ?P = "pending_return shop returned_now"
  have h1: "\<not> db_locked ?d"
    by (simp add: three_rows_def db_of_def)
  have h2: "unique_order_ids ?d"
    by (simp add: unique_order_ids_def three_rows_def db_of_def flagged_row_def plain_row_def)
  have p: "?P (flagged_row 7)" "\<not> ?P (plain_row 8)" "?P (flagged_row 9)"
    by (simp_all add: pending_return_def flagged_row_def plain_row_def order_at_def shop_def
        returned_now_def)
  have snap: "get_all_processed_orders ?d = [flagged_row 7, plain_row 8, flagged_row 9]"
    by (simp add: get_all_processed_orders_def three_rows_def db_of_def flagged_row_def
        plain_row_def)
  have ro: "returned_order shop returned_now (flagged_row 7) = Some (order_at 7 ''returned'')"
    "returned_order shop returned_now (plain_row 8) = None"
    "returned_order shop returned_now (flagged_row 9) = Some (order_at 9 ''returned'')"
    using p by (simp_all add: returned_order_def flagged_row_def plain_row_def returned_now_def)
  have rows: "processed_orders ?d = [flagged_row 7, plain_row 8, flagged_row 9]"
    "error_log ?d = []"
    by (simp_all add: three_rows_def db_of_def)
  have ids: "order_id (flagged_row 7) = 7" "order_id (plain_row 8) = 8"
    by (simp_all add: flagged_row_def plain_row_def)
  have honest: "\<forall>q\<in>set (processed_orders ?d). \<forall>cur.
      returned_now (order_id q) = Returned (Some cur) \<longrightarrow> ord_id cur = order_id q"
    by (auto simp: returned_now_def order_at_def)
  have m: "flagged_row 7 \<in> set (processed_orders ?d)" "plain_row 8 \<in> set (processed_orders ?d)"
    by (simp_all add: rows)
  obtain y c d' where t: "check_orders_returned_from_no_product shop returned_now 9 ?d = (y, c, d')"
    by (cases "check_orders_returned_from_no_product shop returned_now 9 ?d")
  note inst = no_product_round_trip [OF h1 h2, of shop returned_now 9, unfolded t prod.case]
  have eqs: "y = List.map_filter (returned_order shop returned_now) (get_all_processed_orders ?d) \<and>
      map call_effect c =
         concat (map (round_trip 9) (filter ?P (get_all_processed_orders ?d))) \<and>
      d' = ?d\<lparr>processed_orders := filter (\<lambda>r. \<not> ?P r) (processed_orders ?d),
               error_log := error_log ?d @
                 map (\<lambda>r. (''order_returned_from_no_product'', Some (order_id r)))
                   (filter ?P (get_all_processed_orders ?d))\<rparr>"
    using inst by blast
  then have vals: "y = [order_at 7 ''returned'', order_at 9 ''returned''] \<and>
      map call_effect c = round_trip 9 (flagged_row 7) @ round_trip 9 (flagged_row 9) \<and>
      d' = \<lparr>processed_orders = [plain_row 8],
            error_log = [(''order_returned_from_no_product'', Some 7),
                         (''order_returned_from_no_product'', Some 9)],
            db_locked = False\<rparr>"
    unfolding snap rows using p ro
    by (simp add: List.map_filter_simps three_rows_def db_of_def)
       (simp add: flagged_row_def plain_row_def)
  have per: "\<forall>r\<in>set (processed_orders ?d).
      filter (\<lambda>c. call_order (fst c) = Some (order_id r)) (map call_effect c) =
        (if ?P r then round_trip 9 r else []) \<and>
      is_order_processed (order_id r) d' = Inr (\<not> ?P r)"
    using inst by blast
  have cnt: "\<forall>r\<in>set (processed_orders ?d).
      length (filter (\<lambda>order. ord_id order = order_id r) y) = (if ?P r then 1 else 0)"
    using inst honest by blast
  have r7: "filter (\<lambda>c. call_order (fst c) = Some 7) (map call_effect c) =
        round_trip 9 (flagged_row 7) \<and>
      is_order_processed 7 d' = Inr False \<and>
      length (filter (\<lambda>order. ord_id order = 7) y) = 1"
    using per [THEN bspec, OF m(1)] cnt [THEN bspec, OF m(1)] p(1) by (simp add: ids)
  have r8: "filter (\<lambda>c. call_order (fst c) = Some 8) (map call_effect c) = [] \<and>
      is_order_processed 8 d' = Inr True \<and>
      length (filter (\<lambda>order. ord_id order = 8) y) = 0"
    using per [THEN bspec, OF m(2)] cnt [THEN bspec, OF m(2)] p(2) by (simp add: ids)
  have rt: "round_trip 9 (flagged_row 7) =
     [(CallMarkReturned 7, [(flagged_row 7)\<lparr>returned_from_no_product := True, updated_at := 9\<rparr>]),
      (CallReset 7, []),
      (CallLogError ''order_returned_from_no_product'' (Some 7), [])]"
    by (simp add: round_trip_def ids)
  from h1 h2 vals r7 r8 show ?thesis
    unfolding t fst_conv snd_conv rt [symmetric] by blast
qed

section \<open>Idempotent notification claim\<close>

text \<open>
  C1: an order that is in the processed-orders table is not notified again, so that
  running \<^verbatim>\<open>check_orders_with_status\<close> twice in a row notifies each order's recipients at
  most once. The code does not keep to this. The pass concatenates the orders with the
  target status and the orders that returned from no-product, and filters the whole list
  with \<^verbatim>\<open>is_order_processed\<close> before it saves any of them. Here the returned status is
  the target status; order 7 is in the table, flagged as having been in no-product, and
  the backend shows it in the target status on the page and on the lookup by id. The
  detection of returns deletes its row and yields it, so the order is twice in the list
  and passes the filter twice: in one pass each of the three recipients of its warehouse
  gets the notification two times. The pass that follows sends nothing more.
\<close>

theorem returned_order_notified_twice:
  "is_order_processed 7 (ledger flagged_world) = Inr True \<and>
   fst (detect_new_orders one_status_shop (Returned [order_at 7 ''target'']) target_now 9
          (ledger flagged_world)) =
     Inr [order_at 7 ''target'', order_at 7 ''target''] \<and>
   outbox (snd (check_orders_with_status one_status_shop (Returned [order_at 7 ''target''])
      target_now plain_text all_delivered 9 flagged_world)) =
     [SendMessage ''101'' ''text'' 7, SendMessage ''102'' ''text'' 7,
      SendMessage ''103'' ''text'' 7, SendMessage ''101'' ''text'' 7,
      SendMessage ''102'' ''text'' 7, SendMessage ''103'' ''text'' 7] \<and>
   outbox (snd (check_orders_with_status one_status_shop (Returned [order_at 7 ''target''])
      target_now plain_text all_delivered 10
      (snd (check_orders_with_status one_status_shop (Returned [order_at 7 ''target''])
         target_now plain_text all_delivered 9 flagged_world)))) =
     [SendMessage ''101'' ''text'' 7, SendMessage ''102'' ''text'' 7,
      SendMessage ''103'' ''text'' 7, SendMessage ''101'' ''text'' 7,
      SendMessage ''102'' ''text'' 7, SendMessage ''103'' ''text'' 7]"
proof -
  let ?page = "Returned [order_at 7 ''target'']"
  let ?sent = "[SendMessage ''101'' ''text'' 7, SendMessage ''102'' ''text'' 7,
      SendMessage ''103'' ''text'' 7, SendMessage ''101'' ''text'' 7,
      SendMessage ''102'' ''text'' 7, SendMessage ''103'' ''text'' 7]"
  define w1 where "w1 = \<lparr>ledger = \<lparr>processed_orders =
              [plain_row 8,
               (plain_row 7)\<lparr>created_at := 9, updated_at := 9, notified_at := 9\<rparr>],
            error_log = [(''order_returned_from_no_product'', Some 7)],
            db_locked = False\<rparr>,
          outbox = ?sent\<rparr>"
  have tc: "TARGET_STATUS_CODE one_status_shop = ''target''"
    by (simp add: one_status_shop_def shop_def)
  have i7: "ord_id (order_at 7 ''target'') = 7"
    by (simp add: order_at_def)
  have ob: "outbox flagged_world = []"
    by (simp add: flagged_world_def)
  have p: "is_order_processed 7 (ledger flagged_world) = Inr True"
    by (simp add: is_order_processed_def flagged_world_def db_of_def flagged_row_def plain_row_def)
  have snap: "get_all_processed_orders (ledger flagged_world) = [flagged_row 7, plain_row 8]"
    by (simp add: get_all_processed_orders_def flagged_world_def db_of_def flagged_row_def
        plain_row_def)
  have c: "check_orders_returned_from_no_product one_status_shop target_now 9 (ledger flagged_world) =
     ([order_at 7 ''target''],
      [(CallMarkReturned 7,
        db_of [(flagged_row 7)\<lparr>returned_from_no_product := True, updated_at := 9\<rparr>, plain_row 8]),
       (CallReset 7, db_of [plain_row 8]),
       (CallLogError ''order_returned_from_no_product'' (Some 7),
        \<lparr>processed_orders = [plain_row 8],
         error_log = [(''order_returned_from_no_product'', Some 7)],
         db_locked = False\<rparr>)],
      \<lparr>processed_orders = [plain_row 8],
       error_log = [(''order_returned_from_no_product'', Some 7)],
       db_locked = False\<rparr>)"
    unfolding check_orders_returned_from_no_product_def snap
    by (simp add: flagged_world_def db_of_def flagged_row_def plain_row_def one_status_shop_def
        shop_def target_now_def order_at_def mark_order_returned_from_no_product_def
        reset_order_for_renotification_def log_error_def)
  have d: "detect_new_orders one_status_shop ?page target_now 9 (ledger flagged_world) =
     (Inr [order_at 7 ''target'', order_at 7 ''target''],
      \<lparr>processed_orders = [plain_row 8],
       error_log = [(''order_returned_from_no_product'', Some 7)],
       db_locked = False\<rparr>)"
    by (simp add: detect_new_orders_def get_orders_by_status_def c is_order_processed_def
        plain_row_def order_at_def tc)
  have s: "snd (send_notification_to_warehouse_admins one_status_shop all_delivered sent
       (order_at 7 ''target'') ''text'' 7 []) =
     sent @ [SendMessage ''101'' ''text'' 7, SendMessage ''102'' ''text'' 7,
      SendMessage ''103'' ''text'' 7]" for sent
    by (simp add: send_notification_to_warehouse_admins_def get_admins_for_warehouse_def
        one_status_shop_def shop_def order_at_def send_to_admin_def attempt_send_def api_call_def
        all_delivered_def)
  have first: "check_orders_with_status one_status_shop ?page target_now plain_text
      all_delivered 9 flagged_world = (None, w1)"
    by (simp add: check_orders_with_status_def check_orders_try_def d process_order_def
        plain_text_def Let_def split_beta i7 ob s tc save_processed_order_def w1_def)
       (simp add: order_at_def plain_row_def)
  have snap1: "get_all_processed_orders (ledger w1) =
      [(plain_row 7)\<lparr>created_at := 9, updated_at := 9, notified_at := 9\<rparr>, plain_row 8]"
    by (simp add: w1_def get_all_processed_orders_def plain_row_def)
  have c1: "check_orders_returned_from_no_product one_status_shop target_now 10 (ledger w1) =
     ([], [], ledger w1)"
    unfolding check_orders_returned_from_no_product_def snap1
    by (simp add: plain_row_def)
  have d1: "detect_new_orders one_status_shop ?page target_now 10 (ledger w1) =
      (Inr [], ledger w1)"
    by (simp add: detect_new_orders_def get_orders_by_status_def c1 tc order_at_def)
       (simp add: w1_def is_order_processed_def plain_row_def)
  have second: "check_orders_with_status one_status_shop ?page target_now plain_text
      all_delivered 10 w1 = (None, w1)"
    by (simp add: check_orders_with_status_def check_orders_try_def d1)
  have "outbox w1 = ?sent"
    by (simp add: w1_def)
  then show ?thesis
    unfolding first snd_conv second using p d by simp
qed

end
